theory Spec2Isabelle
  imports Complex_Main
begin

section \<open>JavaScript strings\<close>

text \<open>
  A text is a \<open>string\<close>: one \<open>char\<close> per UTF-16 code unit, for texts whose code units
  are all below 256 (ASCII and Latin-1). On that range the white space of \<open>trim()\<close> and of
  the regular-expression class \<open>\s\<close> is TAB, LF, VT, FF, CR, SPACE and NBSP; \<open>\d\<close> is
  \<open>[0-9]\<close> and \<open>\w\<close> is \<open>[A-Za-z0-9_]\<close>.
\<close>

definition isSpace :: "char \<Rightarrow> bool" where
  "isSpace c = (c \<in> set [CHR '' '', CHR ''\<newline>'', CHR 0x09, CHR 0x0B, CHR 0x0C, CHR 0x0D, CHR 0xA0])"

definition isDigit :: "char \<Rightarrow> bool" where
  "isDigit c = (c \<in> set ''0123456789'')"

definition isWord :: "char \<Rightarrow> bool" where
  "isWord c = (c \<in> set ''abcdefghijklmnopqrstuvwxyzABCDEFGHIJKLMNOPQRSTUVWXYZ0123456789_'')"

definition trim :: "string \<Rightarrow> string" where
  "trim s = rev (dropWhile isSpace (rev (dropWhile isSpace s)))"

definition startsWith :: "string \<Rightarrow> string \<Rightarrow> bool" where
  "startsWith s w = (take (length w) s = w)"

definition endsWith :: "string \<Rightarrow> string \<Rightarrow> bool" where
  "endsWith s w = (length w \<le> length s \<and> drop (length s - length w) s = w)"

fun includesStr :: "string \<Rightarrow> string \<Rightarrow> bool" where
  "includesStr [] w = (w = [])"
| "includesStr (c # s) w = (startsWith (c # s) w \<or> includesStr s w)"

text \<open>\<open>s.split(sep)\<close> for a one-character separator: never the empty array.\<close>

fun split :: "char \<Rightarrow> string \<Rightarrow> string list" where
  "split sep [] = [[]]"
| "split sep (c # s) =
     (if c = sep then [] # split sep s
      else (case split sep s of [] \<Rightarrow> [[c]] | l # ls \<Rightarrow> (c # l) # ls))"

fun join :: "char \<Rightarrow> string list \<Rightarrow> string" where
  "join sep [] = []"
| "join sep [l] = l"
| "join sep (l # ls) = l @ sep # join sep ls"

datatype error = RangeError

text \<open>
  \<open>s.repeat(count)\<close> for an integral count: a negative count throws
  \<open>RangeError: Invalid count value\<close>.
\<close>

definition repeat :: "string \<Rightarrow> int \<Rightarrow> error + string" where
  "repeat s count = (if count < 0 then Inl RangeError else Inr (concat (replicate (nat count) s)))"

section \<open>Regular expressions\<close>

text \<open>
  The fragment of ECMAScript regular expressions the formatter uses, with the backtracking
  semantics of the language: \<open>rxm r st cs\<close> lists every way \<open>r\<close> matches at the state
  \<open>st\<close> (the character before the position, if any, and the rest of the text), in the
  order the backtracking matcher tries them, so that the head of the list is the match
  found. Alternatives are tried left to right, \<open>*\<close> is greedy and gives up an iteration
  that consumes nothing. No regular expression of the source has a flag other than \<open>g\<close>:
  \<open>^\<close> is the start of the text and \<open>$\<close> its end.
\<close>

datatype cls = Space | NonSpace | Word | Digit | OneOf string | NoneOf string

fun inCls :: "cls \<Rightarrow> char \<Rightarrow> bool" where
  "inCls Space c = isSpace c"
| "inCls NonSpace c = (\<not> isSpace c)"
| "inCls Word c = isWord c"
| "inCls Digit c = isDigit c"
| "inCls (OneOf s) c = (c \<in> set s)"
| "inCls (NoneOf s) c = (c \<notin> set s)"

datatype rx =
    Str string
  | Cls cls
  | Seq rx rx
  | Alt rx rx
  | Star rx
  | Group nat rx
  | Bol
  | Eol
  | WordB
  | Ahead rx
  | NotAhead rx

type_synonym mstate = "char option \<times> string"
type_synonym caps = "(nat \<times> string) list"

function (sequential) rxm :: "rx \<Rightarrow> mstate \<Rightarrow> caps \<Rightarrow> (mstate \<times> caps) list" where
  "rxm (Str w) (p, s) cs =
     (if take (length w) s = w
      then [((if w = [] then p else Some (last w), drop (length w) s), cs)] else [])"
| "rxm (Cls k) (p, s) cs =
     (case s of [] \<Rightarrow> [] | c # r \<Rightarrow> if inCls k c then [((Some c, r), cs)] else [])"
| "rxm (Seq a b) st cs = concat (map (\<lambda>(st', cs'). rxm b st' cs') (rxm a st cs))"
| "rxm (Alt a b) st cs = rxm a st cs @ rxm b st cs"
| "rxm (Star a) (p, s) cs =
     concat (map (\<lambda>((p', s'), cs'). if length s' < length s then rxm (Star a) (p', s') cs' else [])
                 (rxm a (p, s) cs))
     @ [((p, s), cs)]"
| "rxm (Group n a) (p, s) cs =
     map (\<lambda>((p', s'), cs'). ((p', s'), (n, take (length s - length s') s) # cs')) (rxm a (p, s) cs)"
| "rxm Bol (p, s) cs = (if p = None then [((p, s), cs)] else [])"
| "rxm Eol (p, s) cs = (if s = [] then [((p, s), cs)] else [])"
| "rxm WordB (p, s) cs =
     (if (case p of None \<Rightarrow> False | Some c \<Rightarrow> isWord c) \<noteq> (case s of [] \<Rightarrow> False | c # _ \<Rightarrow> isWord c)
      then [((p, s), cs)] else [])"
| "rxm (Ahead a) st cs = (if rxm a st cs \<noteq> [] then [(st, cs)] else [])"
| "rxm (NotAhead a) st cs = (if rxm a st cs = [] then [(st, cs)] else [])"
  by pat_completeness auto
termination
  by (relation "inv_image (less_than <*lex*> less_than) (\<lambda>(r, (p, s), cs). (size r, length s))") auto

text \<open>A replacement: literal text, \<open>$n\<close>, and the whole match (a replacer function's argument).\<close>

datatype ritem = Lit string | Ref nat | Whole

fun subst :: "ritem list \<Rightarrow> string \<Rightarrow> caps \<Rightarrow> string" where
  "subst [] m cs = []"
| "subst (Lit w # is) m cs = w @ subst is m cs"
| "subst (Ref n # is) m cs = (case map_of cs n of None \<Rightarrow> [] | Some w \<Rightarrow> w) @ subst is m cs"
| "subst (Whole # is) m cs = m @ subst is m cs"

text \<open>
  \<open>text.replace(/r/g, rep)\<close>: the leftmost match from the current position is replaced
  and the search goes on after it; after an empty match it goes on one character later.
  \<open>p\<close> is the character before the current position (\<open>None\<close> at the start of the text).
\<close>

function replaceFrom :: "rx \<Rightarrow> ritem list \<Rightarrow> char option \<Rightarrow> string \<Rightarrow> string" where
  "replaceFrom r rep p s =
     (case rxm r (p, s) [] of
        [] \<Rightarrow> (case s of [] \<Rightarrow> [] | c # t \<Rightarrow> c # replaceFrom r rep (Some c) t)
      | ((p', s'), cs) # _ \<Rightarrow>
          subst rep (take (length s - length s') s) cs @
          (if length s' < length s then replaceFrom r rep p' s'
           else (case s of [] \<Rightarrow> [] | c # t \<Rightarrow> c # replaceFrom r rep (Some c) t)))"
  by pat_completeness auto
termination
  by (relation "measure (\<lambda>(r, rep, p, s). length s)") auto

definition replaceAll :: "rx \<Rightarrow> ritem list \<Rightarrow> string \<Rightarrow> string" where
  "replaceAll r rep s = replaceFrom r rep None s"

fun cat :: "rx list \<Rightarrow> rx" where
  "cat [] = Str []"
| "cat [a] = a"
| "cat (a # as) = Seq a (cat as)"

fun alts :: "rx list \<Rightarrow> rx" where
  "alts [] = NotAhead (Str [])"
| "alts [a] = a"
| "alts (a # as) = Alt a (alts as)"

definition plus :: "rx \<Rightarrow> rx" where
  "plus a = Seq a (Star a)"

definition atLeast3 :: "rx \<Rightarrow> rx" where
  "atLeast3 a = cat [a, a, a, Star a]"

abbreviation ws :: rx where "ws \<equiv> Star (Cls Space)"
abbreviation ws1 :: rx where "ws1 \<equiv> plus (Cls Space)"
abbreviation dg :: rx where "dg \<equiv> Cls Digit"
abbreviation dgs :: rx where "dgs \<equiv> plus (Cls Digit)"
abbreviation wds :: rx where "wds \<equiv> plus (Cls Word)"
abbreviation nl :: string where "nl \<equiv> ''\<newline>''"

section \<open>The formatter\<close>

record options =
  tabWidth :: "nat option"
  printWidth :: "nat option"

subsection \<open>Preprocessor\<close>

text \<open>\<open>text.replace(/\r\n/g, '\n')\<close>\<close>

definition normalizeNewlines :: "string \<Rightarrow> string" where
  "normalizeNewlines = replaceAll (Str [CHR 0x0D, CHR ''\<newline>'']) [Lit nl]"


text \<open>A rule is a regular expression with its replacement; rules apply in the order listed.\<close>

type_synonym rule = "rx \<times> ritem list"

definition applyRules :: "rule list \<Rightarrow> string \<Rightarrow> string" where
  "applyRules rs t = foldl (\<lambda>t (r, rep). replaceAll r rep t) t rs"

text \<open>Repair of a comment marker split by white space, before the scan and again after it.\<close>

definition commentRepair :: rule where
  \<comment> \<open>\<open>/\/\s+\//g\<close> to \<open>//\<close>\<close>
  "commentRepair = (cat [Str ''/'', ws1, Str ''/''], [Lit ''//''])"

text \<open>
  The three substitutions applied to every line before the scan:
  \<open>/(nUniShc|nUniHea|nUniCoo)\s+-\s+(\d+)/g\<close> to \<open>$1-$2\<close>,
  \<open>/\(\s*1\s+-\s+ratCycShc\)/g\<close> to \<open>(1-ratCycShc)\<close>,
  \<open>/\(nUniShc\s+-\s+(\d+)\s+\+\s+ratCycShc\)/g\<close> to \<open>(nUniShc-$1 + ratCycShc)\<close>.
\<close>

definition preprocessRules :: "rule list" where
  "preprocessRules =
    [(cat [Group 1 (alts [Str ''nUniShc'', Str ''nUniHea'', Str ''nUniCoo'']),
           ws1, Str ''-'', ws1, Group 2 dgs],
      [Ref 1, Lit ''-'', Ref 2]),
     (cat [Str ''('', ws, Str ''1'', ws1, Str ''-'', ws1, Str ''ratCycShc)''],
      [Lit ''(1-ratCycShc)'']),
     (cat [Str ''(nUniShc'', ws1, Str ''-'', ws1, Group 1 dgs, ws1, Str ''+'', ws1,
           Str ''ratCycShc)''],
      [Lit ''(nUniShc-'', Ref 1, Lit '' + ratCycShc)''])]"

definition preprocessLine :: "string \<Rightarrow> string" where
  "preprocessLine = applyRules preprocessRules"

subsection \<open>Indentation engine\<close>

record frame =
  btype :: string
  level :: int

record scan =
  indentLevel :: int
  inEquation :: bool
  inAlgorithm :: bool
  controlBlocks :: "frame list"
  result :: "string list"

definition initScan :: scan where
  "initScan = \<lparr>indentLevel = 0, inEquation = False, inAlgorithm = False,
               controlBlocks = [], result = []\<rparr>"

definition isSectionStart :: "string \<Rightarrow> bool" where
  "isSectionStart line =
     (line = ''equation'' \<or> line = ''initial equation'' \<or>
      line = ''algorithm'' \<or> line = ''initial algorithm'')"

definition isSectionEnd :: "string \<Rightarrow> bool" where
  "isSectionEnd line =
     (line = ''end'' \<or> line = ''end;'' \<or> line = ''public'' \<or> line = ''protected'' \<or>
      line = ''equation'' \<or> line = ''initial equation'' \<or>
      line = ''algorithm'' \<or> line = ''initial algorithm'')"

definition isClassStart :: "string \<Rightarrow> bool" where
  "isClassStart line =
     (startsWith line ''model '' \<or> startsWith line ''block '' \<or>
      startsWith line ''package '' \<or> startsWith line ''function '' \<or>
      startsWith line ''record '' \<or> startsWith line ''connector '' \<or>
      startsWith line ''class '')"

definition isClassEnd :: "string \<Rightarrow> bool" where
  "isClassEnd line =
     (startsWith line ''end '' \<and> \<not> startsWith line ''end if'' \<and>
      \<not> startsWith line ''end when'' \<and> \<not> startsWith line ''end for'')"

definition isControlStart :: "string \<Rightarrow> bool" where
  "isControlStart line =
     ((startsWith line ''if '' \<and> endsWith line ''then'') \<or>
      (startsWith line ''when '' \<and> endsWith line ''then'') \<or>
      (startsWith line ''for '' \<and> endsWith line ''loop''))"

definition isElse :: "string \<Rightarrow> bool" where
  "isElse line = (line = ''else'' \<or> startsWith line ''elseif '')"

definition isControlEnd :: "string \<Rightarrow> bool" where
  "isControlEnd line =
     (startsWith line ''end if'' \<or> startsWith line ''end when'' \<or> startsWith line ''end for'')"

text \<open>
  What one iteration of the scan does to the state for the trimmed line \<open>line\<close>, and
  what it pushes: the empty string (\<open>Blank\<close>) or the line behind \<open>indent.repeat(k)\<close>
  (\<open>At k\<close>). \<open>prev\<close> is \<open>lines[i-1]\<close>, absent for the first line.
\<close>

datatype emit = Blank | At int

definition lineUpdate :: "scan \<Rightarrow> string option \<Rightarrow> string \<Rightarrow> scan \<times> emit" where
  "lineUpdate st prev line =
    (if line = [] then (st, Blank)
     else if isSectionStart line then
       (st\<lparr>inEquation := includesStr line ''equation'',
           inAlgorithm := includesStr line ''algorithm''\<rparr>, At (indentLevel st))
     else if isSectionEnd line then
       (let st1 = (if line = ''end'' \<or> line = ''end;''
                   then st\<lparr>indentLevel := max 0 (indentLevel st - 1)\<rparr> else st)
        in (st1\<lparr>inEquation := includesStr line ''equation'',
                 inAlgorithm := includesStr line ''algorithm''\<rparr>, At (indentLevel st1)))
     else if isClassStart line then
       (st\<lparr>indentLevel := indentLevel st + 1\<rparr>, At (indentLevel st))
     else if isClassEnd line then
       (st\<lparr>indentLevel := max 0 (indentLevel st - 1)\<rparr>, At (max 0 (indentLevel st - 1)))
     else if inEquation st \<or> inAlgorithm st then
       (if startsWith line ''//'' then (st, At (indentLevel st + 1))
        else if isControlStart line then
          (st\<lparr>controlBlocks := controlBlocks st @
                  [\<lparr>btype = (case split CHR '' '' line of [] \<Rightarrow> [] | w # _ \<Rightarrow> w),
                    level = indentLevel st + 1\<rparr>],
               indentLevel := indentLevel st + 1\<rparr>, At (indentLevel st + 1))
        else if isElse line then
          (if controlBlocks st \<noteq> []
           then (st\<lparr>indentLevel := level (last (controlBlocks st))\<rparr>,
                 At (level (last (controlBlocks st))))
           else (st, At (indentLevel st)))
        else if isControlEnd line then
          (if controlBlocks st \<noteq> []
           then (st\<lparr>controlBlocks := butlast (controlBlocks st),
                     indentLevel := indentLevel st - 1\<rparr>, At (indentLevel st - 1))
           else (st, At (indentLevel st)))
        else if (case prev of None \<Rightarrow> False
                 | Some pl \<Rightarrow> endsWith (trim pl) ''('' \<or> endsWith (trim pl) '','')
          then (st, At (indentLevel st + 2))
        else if startsWith line ''//'' then (st, At (indentLevel st + 1))
        else (st, At (indentLevel st + 1)))
     else (st, At (indentLevel st)))"

definition step :: "nat \<Rightarrow> scan \<Rightarrow> string option \<Rightarrow> string \<Rightarrow> error + scan" where
  "step tw st prev raw =
    (let line = trim raw in
     case lineUpdate st prev line of
       (st', Blank) \<Rightarrow> Inr (st'\<lparr>result := result st' @ [[]]\<rparr>)
     | (st', At k) \<Rightarrow>
         (case repeat (replicate tw CHR '' '') k of
            Inl e \<Rightarrow> Inl e
          | Inr pad \<Rightarrow> Inr (st'\<lparr>result := result st' @ [pad @ line]\<rparr>)))"

fun scanLines :: "nat \<Rightarrow> scan \<Rightarrow> string option \<Rightarrow> string list \<Rightarrow> error + scan" where
  "scanLines tw st prev [] = Inr st"
| "scanLines tw st prev (l # ls) =
     (case step tw st prev l of Inl e \<Rightarrow> Inl e | Inr st' \<Rightarrow> scanLines tw st' (Some l) ls)"

subsection \<open>Token normalizer\<close>

text \<open>The substitutions applied to the joined text, each with the source's regular expression.\<close>

definition withinSpacing :: rule where
  \<comment> \<open>\<open>/within\s+([^;]+);/g\<close> to \<open>within $1;\<close>\<close>
  "withinSpacing =
     (cat [Str ''within'', ws1, Group 1 (plus (Cls (NoneOf '';''))), Str '';''],
      [Lit ''within '', Ref 1, Lit '';''])"

definition withinBlankLine :: rule where
  \<comment> \<open>\<open>/within[^;]*;\n(?!\s*$)/g\<close> to the match followed by a newline\<close>
  "withinBlankLine =
     (cat [Str ''within'', Star (Cls (NoneOf '';'')), Str '';'', Str nl, NotAhead (cat [ws, Eol])],
      [Whole, Lit nl])"

definition commaSpacing :: rule where
  \<comment> \<open>\<open>/,(?=\S)/g\<close> to a comma and a space\<close>
  "commaSpacing = (cat [Str '','', Ahead (Cls NonSpace)], [Lit '', ''])"

definition operatorSpacing :: rule where
  \<comment> \<open>\<open>/\s*([+*\/=<>])\s*/g\<close> to \<open> $1 \<close>\<close>
  "operatorSpacing = (cat [ws, Group 1 (Cls (OneOf ''+*/=<>'')), ws], [Lit '' '', Ref 1, Lit '' ''])"

definition minusSubtraction :: rule where
  \<comment> \<open>\<open>/(\w|\)|\]|\})\s*-\s*/g\<close> to \<open>$1 - \<close>\<close>
  "minusSubtraction =
     (cat [Group 1 (alts [Cls Word, Str '')'', Str '']'', Str ''}'']), ws, Str ''-'', ws],
      [Ref 1, Lit '' - ''])"

definition minusLiteral :: rule where
  \<comment> \<open>\<open>/(\s|^|,|\(|\[|\{|=)-\s+(\d)/g\<close> to \<open>$1-$2\<close>\<close>
  "minusLiteral =
     (cat [Group 1 (alts [Cls Space, Bol, Str '','', Str ''('', Str ''['', Str ''{'', Str ''='']),
           Str ''-'', ws1, Group 2 dg],
      [Ref 1, Lit ''-'', Ref 2])"

definition minusNegation :: rule where
  \<comment> \<open>\<open>/(\*|\/|\+|\s)\s*-\s+(\d)/g\<close> to \<open>$1-$2\<close>\<close>
  "minusNegation =
     (cat [Group 1 (alts [Str ''*'', Str ''/'', Str ''+'', Cls Space]), ws, Str ''-'', ws1, Group 2 dg],
      [Ref 1, Lit ''-'', Ref 2])"

definition exponentMinus :: rule where
  \<comment> \<open>\<open>/([eE])\s*-\s*(\d)/g\<close> to \<open>$1-$2\<close>\<close>
  "exponentMinus =
     (cat [Group 1 (Cls (OneOf ''eE'')), ws, Str ''-'', ws, Group 2 dg], [Ref 1, Lit ''-'', Ref 2])"

definition annotationSpacing :: rule where
  \<comment> \<open>\<open>/annotation\s*\(\s*/g\<close> to \<open>annotation(\<close>\<close>
  "annotationSpacing = (cat [Str ''annotation'', ws, Str ''('', ws], [Lit ''annotation(''])"

definition bareColon :: rule where
  \<comment> \<open>\<open>/\[\s*:\s*\]/g\<close> to \<open>[:]\<close>\<close>
  "bareColon = (cat [Str ''['', ws, Str '':'', ws, Str '']''], [Lit ''[:]''])"

definition rangeColon :: rule where
  \<comment> \<open>\<open>/(\d|\w|\))\s*:\s*(\d|\w|\()/g\<close> to \<open>$1:$2\<close>\<close>
  "rangeColon =
     (cat [Group 1 (alts [dg, Cls Word, Str '')'']), ws, Str '':'', ws,
           Group 2 (alts [dg, Cls Word, Str ''(''])],
      [Ref 1, Lit '':'', Ref 2])"

definition indexRange :: rule where
  \<comment> \<open>\<open>/(\w+)\s*\[\s*(\d+)\s*:\s*(\d+)\s*\]/g\<close> to \<open>$1[$2:$3]\<close>\<close>
  "indexRange =
     (cat [Group 1 wds, ws, Str ''['', ws, Group 2 dgs, ws, Str '':'', ws, Group 3 dgs, ws, Str '']''],
      [Ref 1, Lit ''['', Ref 2, Lit '':'', Ref 3, Lit '']''])"

definition indexColon :: rule where
  \<comment> \<open>\<open>/(\w+)\s*\[\s*:\s*\]/g\<close> to \<open>$1[:]\<close>\<close>
  "indexColon =
     (cat [Group 1 wds, ws, Str ''['', ws, Str '':'', ws, Str '']''], [Ref 1, Lit ''[:]''])"

definition forRange :: rule where
  \<comment> \<open>\<open>/for\s+(\w+)\s+in\s+(\d+)\s*:\s*(\d+)/g\<close> to \<open>for $1 in $2:$3\<close>\<close>
  "forRange =
     (cat [Str ''for'', ws1, Group 1 wds, ws1, Str ''in'', ws1, Group 2 dgs, ws, Str '':'', ws,
           Group 3 dgs],
      [Lit ''for '', Ref 1, Lit '' in '', Ref 2, Lit '':'', Ref 3])"

definition bracketMinus :: rule where
  \<comment> \<open>\<open>/\[\s*-\s*(\d+)/g\<close> to \<open>[-$1\<close>\<close>
  "bracketMinus = (cat [Str ''['', ws, Str ''-'', ws, Group 1 dgs], [Lit ''[-'', Ref 1])"

definition braceMinus :: rule where
  \<comment> \<open>\<open>/\{\s*-\s*(\d+)/g\<close> to \<open>{-$1\<close>\<close>
  "braceMinus = (cat [Str ''{'', ws, Str ''-'', ws, Group 1 dgs], [Lit ''{-'', Ref 1])"

definition keywordSpacing :: rule where
  \<comment> \<open>\<open>/\b(parameter|input|output|constant)\b(?=\S)/g\<close> to \<open>$1 \<close>\<close>
  "keywordSpacing =
     (cat [WordB, Group 1 (alts [Str ''parameter'', Str ''input'', Str ''output'', Str ''constant'']),
           WordB, Ahead (Cls NonSpace)],
      [Ref 1, Lit '' ''])"

definition collapseBlankLines :: rule where
  \<comment> \<open>\<open>/\n{3,}/g\<close> to two newlines\<close>
  "collapseBlankLines = (atLeast3 (Str nl), [Lit ''\<newline>\<newline>''])"

definition sectionBlankLine :: rule where
  \<comment> \<open>\<open>/(equation|algorithm|public|protected|initial equation|initial algorithm)\n(?!\s*$)/g\<close>
      to \<open>$1\<close> and two newlines\<close>
  "sectionBlankLine =
     (cat [Group 1 (alts [Str ''equation'', Str ''algorithm'', Str ''public'', Str ''protected'',
                          Str ''initial equation'', Str ''initial algorithm'']),
           Str nl, NotAhead (cat [ws, Eol])],
      [Ref 1, Lit ''\<newline>\<newline>''])"

definition normalizerRules :: "rule list" where
  "normalizerRules =
    [withinSpacing, withinBlankLine, commaSpacing, operatorSpacing,
     minusSubtraction, minusLiteral, minusNegation, exponentMinus,
     annotationSpacing, bareColon, rangeColon, indexRange, indexColon, forRange,
     bracketMinus, braceMinus, keywordSpacing, collapseBlankLines, sectionBlankLine]"

definition normalize :: "string \<Rightarrow> string" where
  "normalize = applyRules normalizerRules"

subsection \<open>Corrective re-indentation pass\<close>

text \<open>
  \<open>eqIndentLevel = indent.length / tabWidth\<close> and the count
  \<open>(eqIndentLevel + 1) * tabWidth\<close> are numbers: IEEE 754 doubles. None of them is
  negative, so a number is here a non-negative finite double, given by its exact rational
  value, or \<open>+Infinity\<close>, or \<open>NaN\<close> (the sign of a zero has no effect on the pass).
  Every operation rounds its exact result to the nearest double, ties to even:
  \<open>roundDouble\<close>, with 53 significant bits down to the exponent -1022 and the fixed
  quantum \<open>2^-1074\<close> below it, and \<open>Infinity\<close> from \<open>2^1024\<close> on.
\<close>

datatype number = Fin rat | Inf | NaN

function ilog2 :: "int \<Rightarrow> int" where
  "ilog2 n = (if n < 2 then 0 else 1 + ilog2 (n div 2))"
  by pat_completeness auto
termination
  by (relation "measure nat") auto

text \<open>The exponent \<open>e\<close> of a positive rational \<open>x\<close>: \<open>2^e \<le> x < 2^(e+1)\<close>.\<close>

definition exponent :: "rat \<Rightarrow> int" where
  "exponent x =
     (case quotient_of x of
        (n, d) \<Rightarrow>
          (let e = ilog2 n - ilog2 d
           in if 2 powi e \<le> x then e else e - 1))"

definition roundHalfEven :: "rat \<Rightarrow> int" where
  "roundHalfEven y =
     (let f = \<lfloor>y\<rfloor>; r = y - of_int f
      in if r < 1 / 2 then f else if 1 / 2 < r then f + 1 else if even f then f else f + 1)"

definition roundDouble :: "rat \<Rightarrow> rat" where
  "roundDouble x =
     (if x = 0 then 0
      else (let q = 2 powi (max (exponent x) (- 1022) - 52)
            in q * of_int (roundHalfEven (x / q))))"

definition toNumber :: "rat \<Rightarrow> number" where
  "toNumber x = (let r = roundDouble x in if of_int (2 ^ 1024) \<le> r then Inf else Fin r)"

fun numDiv :: "number \<Rightarrow> number \<Rightarrow> number" where
  "numDiv (Fin x) (Fin y) = (if y = 0 then (if x = 0 then NaN else Inf) else toNumber (x / y))"
| "numDiv (Fin x) Inf = Fin 0"
| "numDiv Inf (Fin y) = Inf"
| "numDiv _ _ = NaN"

fun numAdd :: "number \<Rightarrow> number \<Rightarrow> number" where
  "numAdd (Fin x) (Fin y) = toNumber (x + y)"
| "numAdd NaN _ = NaN"
| "numAdd _ NaN = NaN"
| "numAdd _ _ = Inf"

fun numMul :: "number \<Rightarrow> number \<Rightarrow> number" where
  "numMul (Fin x) (Fin y) = toNumber (x * y)"
| "numMul NaN _ = NaN"
| "numMul _ NaN = NaN"
| "numMul Inf (Fin y) = (if y = 0 then NaN else Inf)"
| "numMul (Fin x) Inf = (if x = 0 then NaN else Inf)"
| "numMul Inf Inf = Inf"

text \<open>
  \<open>s.repeat(count)\<close> for a number: \<open>NaN\<close> counts as 0, a finite count is truncated to
  an integer, and an infinite count throws like a negative one.
\<close>

definition toInteger :: "rat \<Rightarrow> int" where
  "toInteger q = (if q < 0 then - \<lfloor>- q\<rfloor> else \<lfloor>q\<rfloor>)"

definition repeatNumber :: "string \<Rightarrow> number \<Rightarrow> error + string" where
  "repeatNumber s count =
     (case count of
        NaN \<Rightarrow> repeat s 0
      | Inf \<Rightarrow> Inl RangeError
      | Fin q \<Rightarrow> repeat s (toInteger q))"

definition leadingSpace :: "string \<Rightarrow> string" where
  \<comment> \<open>\<open>s.match(/^\s*/)[0]\<close>\<close>
  "leadingSpace s = takeWhile isSpace s"

definition isSectionExit :: "string \<Rightarrow> bool" where
  "isSectionExit line =
     (line = ''end'' \<or> line = ''end;'' \<or> line = ''public'' \<or> line = ''protected'')"

definition isIfWhen :: "string \<Rightarrow> bool" where
  "isIfWhen line = ((startsWith line ''if '' \<or> startsWith line ''when '') \<and> endsWith line ''then'')"

definition consLine :: "string \<Rightarrow> error + string list \<Rightarrow> error + string list" where
  "consLine l r = (case r of Inl e \<Rightarrow> Inl e | Inr ls \<Rightarrow> Inr (l # ls))"

definition reindent :: "nat \<Rightarrow> number \<Rightarrow> string \<Rightarrow> error + string" where
  \<comment> \<open>\<open>' '.repeat((eqIndentLevel + 1) * tabWidth) + line\<close>\<close>
  "reindent tw eqIndentLevel line =
     (case repeatNumber '' '' (numMul (numAdd eqIndentLevel (Fin 1)) (Fin (of_nat tw))) of
        Inl e \<Rightarrow> Inl e | Inr pad \<Rightarrow> Inr (pad @ line))"

fun fixLines :: "nat \<Rightarrow> bool \<Rightarrow> number \<Rightarrow> string list \<Rightarrow> error + string list" where
  "fixLines tw inEqSection eqIndentLevel [] = Inr []"
| "fixLines tw inEqSection eqIndentLevel (raw # ls) =
    (let line = trim raw; indent = leadingSpace raw in
     if isSectionStart line then
       consLine raw
         (fixLines tw True (numDiv (Fin (of_nat (length indent))) (Fin (of_nat tw))) ls)
     else if inEqSection \<and> isSectionExit line then
       consLine raw (fixLines tw False eqIndentLevel ls)
     else if inEqSection \<and> isIfWhen line then
       (case reindent tw eqIndentLevel line of
          Inl e \<Rightarrow> Inl e | Inr l \<Rightarrow> consLine l (fixLines tw inEqSection eqIndentLevel ls))
     else if inEqSection \<and> isElse line then
       (case reindent tw eqIndentLevel line of
          Inl e \<Rightarrow> Inl e | Inr l \<Rightarrow> consLine l (fixLines tw inEqSection eqIndentLevel ls))
     else if inEqSection \<and> isControlEnd line then
       (case reindent tw eqIndentLevel line of
          Inl e \<Rightarrow> Inl e | Inr l \<Rightarrow> consLine l (fixLines tw inEqSection eqIndentLevel ls))
     else consLine raw (fixLines tw inEqSection eqIndentLevel ls))"

definition correctivePass :: "nat \<Rightarrow> string list \<Rightarrow> error + string list" where
  "correctivePass tw finalLines = fixLines tw False (Fin 0) finalLines"

subsection \<open>Final cleanup pass\<close>

definition spaceMinusDigit :: rule where
  \<comment> \<open>\<open>/\s+-(\d)/g\<close> to \<open> -$1\<close>\<close>
  "spaceMinusDigit = (cat [ws1, Str ''-'', Group 1 dg], [Lit '' -'', Ref 1])"

definition parenMinusDigit :: rule where
  \<comment> \<open>\<open>/\(\s*-\s*(\d)/g\<close> to \<open>(-$1\<close>\<close>
  "parenMinusDigit = (cat [Str ''('', ws, Str ''-'', ws, Group 1 dg], [Lit ''(-'', Ref 1])"

definition bracketMinusDigit :: rule where
  \<comment> \<open>\<open>/\[\s*-\s*(\d)/g\<close> to \<open>[-$1\<close>\<close>
  "bracketMinusDigit = (cat [Str ''['', ws, Str ''-'', ws, Group 1 dg], [Lit ''[-'', Ref 1])"

definition commaMinusDigit :: rule where
  \<comment> \<open>\<open>/,\s*-\s*(\d)/g\<close> to \<open>, -$1\<close>\<close>
  "commaMinusDigit = (cat [Str '','', ws, Str ''-'', ws, Group 1 dg], [Lit '', -'', Ref 1])"

definition equalsMinusDigit :: rule where
  \<comment> \<open>\<open>/=\s*-\s*(\d)/g\<close> to \<open>= -$1\<close>\<close>
  "equalsMinusDigit = (cat [Str ''='', ws, Str ''-'', ws, Group 1 dg], [Lit ''= -'', Ref 1])"

definition exponentPlus :: rule where
  \<comment> \<open>\<open>/([eE])\s*\+\s*(\d)/g\<close> to \<open>$1+$2\<close>\<close>
  "exponentPlus =
     (cat [Group 1 (Cls (OneOf ''eE'')), ws, Str ''+'', ws, Group 2 dg], [Ref 1, Lit ''+'', Ref 2])"

definition nUniShcMinus :: rule where
  \<comment> \<open>\<open>/nUniShc\s+-\s+(\d)/g\<close> to \<open>nUniShc-$1\<close>\<close>
  "nUniShcMinus = (cat [Str ''nUniShc'', ws1, Str ''-'', ws1, Group 1 dg], [Lit ''nUniShc-'', Ref 1])"

definition parenNUniShcMinus :: rule where
  \<comment> \<open>\<open>/\(\s*nUniShc\s+-\s+(\d)/g\<close> to \<open>(nUniShc-$1\<close>\<close>
  "parenNUniShcMinus =
     (cat [Str ''('', ws, Str ''nUniShc'', ws1, Str ''-'', ws1, Group 1 dg],
      [Lit ''(nUniShc-'', Ref 1])"

definition timesMinus :: rule where
  \<comment> \<open>\<open>/\s+\*\s+-\s+(\d)/g\<close> to \<open> *-$1\<close>\<close>
  "timesMinus = (cat [ws1, Str ''*'', ws1, Str ''-'', ws1, Group 1 dg], [Lit '' *-'', Ref 1])"

definition divideMinus :: rule where
  \<comment> \<open>\<open>/\s+\/\s+-\s+(\d)/g\<close> to \<open> /-$1\<close>\<close>
  "divideMinus = (cat [ws1, Str ''/'', ws1, Str ''-'', ws1, Group 1 dg], [Lit '' /-'', Ref 1])"

definition nUniShcRatCyc :: rule where
  \<comment> \<open>\<open>/\(nUniShc\s*-\s*(\d+)\s+\+\s+ratCycShc\)/g\<close> to \<open>(nUniShc-$1 + ratCycShc)\<close>\<close>
  "nUniShcRatCyc =
     (cat [Str ''(nUniShc'', ws, Str ''-'', ws, Group 1 dgs, ws1, Str ''+'', ws1, Str ''ratCycShc)''],
      [Lit ''(nUniShc-'', Ref 1, Lit '' + ratCycShc)''])"

definition unitCountMinus :: rule where
  \<comment> \<open>\<open>/\((nUniShc|nUniHea|nUniCoo)\s*-\s*\d+\)/g\<close> to \<open>($1-1)\<close>\<close>
  "unitCountMinus =
     (cat [Str ''('', Group 1 (alts [Str ''nUniShc'', Str ''nUniHea'', Str ''nUniCoo'']),
           ws, Str ''-'', ws, dgs, Str '')''],
      [Lit ''('', Ref 1, Lit ''-1)''])"

definition cleanupRules :: "rule list" where
  "cleanupRules =
    [commentRepair, spaceMinusDigit, parenMinusDigit, bracketMinusDigit, commaMinusDigit,
     equalsMinusDigit, exponentMinus, exponentPlus, nUniShcMinus, parenNUniShcMinus,
     timesMinus, divideMinus, nUniShcRatCyc, unitCountMinus]"

definition cleanup :: "string \<Rightarrow> string" where
  "cleanup = applyRules cleanupRules"

subsection \<open>The pipeline\<close>

definition formatModelica :: "string \<Rightarrow> options \<Rightarrow> error + string" where
  "formatModelica text opts =
    (let tw = (case tabWidth opts of None \<Rightarrow> 2 | Some n \<Rightarrow> n);
         lines = map preprocessLine
                   (split CHR ''\<newline>'' (applyRules [commentRepair] (normalizeNewlines text)))
     in case scanLines tw initScan None lines of
          Inl e \<Rightarrow> Inl e
        | Inr st \<Rightarrow>
            (case correctivePass tw
                    (split CHR ''\<newline>'' (normalize (join CHR ''\<newline>'' (result st)))) of
               Inl e \<Rightarrow> Inl e
             | Inr finalLines \<Rightarrow> Inr (cleanup (join CHR ''\<newline>'' finalLines))))"

definition defaults :: options where
  "defaults = \<lparr>tabWidth = None, printWidth = None\<rparr>"

section \<open>Auxiliary definitions for the proofs\<close>

text \<open>
  Used in the proofs only: what replacing every \<open>/\n{3,}/\<close> by two newlines computes,
  written as a scan. \<open>replaceFrom_collapse\<close> below proves that the rule computes it.
\<close>

function squeeze :: "string \<Rightarrow> string" where
  "squeeze [] = []"
| "squeeze (c # s) =
     (if c = CHR ''\<newline>'' \<and> take 2 s = ''\<newline>\<newline>''
      then CHR ''\<newline>'' # CHR ''\<newline>'' # squeeze (dropWhile (\<lambda>x. x = CHR ''\<newline>'') s)
      else c # squeeze s)"
  by pat_completeness auto
termination
  by (relation "measure length") (auto intro: le_imp_less_Suc length_dropWhile_le)

text \<open>
  Used in the proofs only: the levels the corrective pass can hold when no line is longer
  than a string can be. A finite level is at most \<open>2^53\<close>; \<open>Infinity\<close> and \<open>NaN\<close>
  come from a division by a \<open>tabWidth\<close> of 0 only.
\<close>

definition okLevel :: "nat \<Rightarrow> number \<Rightarrow> bool" where
  "okLevel tw lvl = (case lvl of Fin r \<Rightarrow> 0 \<le> r \<and> r \<le> 2 ^ 53 | Inf \<Rightarrow> tw = 0 | NaN \<Rightarrow> tw = 0)"

declare replaceFrom.simps [simp del]
declare rxm.simps(5) [simp del]
declare ilog2.simps [simp del]

section \<open>Properties of the formatter\<close>

subsection \<open>Termination and exceptions\<close>

text \<open>
  C1. The claim is that \<open>formatModelica\<close> returns a string for every input text and never
  throws. Every function above is total, so the formatter always terminates; but it does
  throw. In an equation section an \<open>if \<dots> then\<close> line pushes a frame and raises the
  indent level to 1; a class terminator \<open>end A;\<close> lowers the level to 0 and leaves the
  frame on the stack; the following \<open>end if\<close> pops the frame and decrements the level
  to -1 without the clamp of the other decrements, and \<open>indent.repeat(-1)\<close> throws a
  RangeError.
\<close>

theorem formatModelica_throws_RangeError:
  "formatModelica ''equation\<newline>if x then\<newline>end A;\<newline>end if'' defaults = Inl RangeError"
  by code_simp

text \<open>
  C2. The claim is that the indent level is at least 0 after each line of the scan. After
  the lines \<open>equation\<close>, \<open>if x then\<close>, \<open>end A;\<close> the scan is at level 0 with one frame
  on the stack; processing \<open>end if\<close> in that state sets the level to -1, and the step
  ends in the RangeError of \<open>repeat\<close>.
\<close>

theorem indentLevel_negative_after_end_if:
  "(case scanLines 2 initScan None [''equation'', ''if x then'', ''end A;''] of
      Inl e \<Rightarrow> False
    | Inr st \<Rightarrow>
        indentLevel st = 0 \<and> length (controlBlocks st) = 1 \<and>
        indentLevel (fst (lineUpdate st (Some ''end A;'') ''end if'')) = - 1 \<and>
        step 2 st (Some ''end A;'') ''end if'' = Inl RangeError)"
  by code_simp

subsection \<open>The stack of control blocks\<close>

text \<open>
  The scan changes the stack in the branch for an active section only, and a line that
  leaves the section (\<open>end\<close>, \<open>end;\<close>, \<open>public\<close>, \<open>protected\<close>) resets the two
  section flags and nothing else.
\<close>

lemma lineUpdate_outside:
  "\<not> inEquation st \<Longrightarrow> \<not> inAlgorithm st \<Longrightarrow> controlBlocks (fst (lineUpdate st prev line)) = controlBlocks st"
  by (simp add: lineUpdate_def Let_def)

lemma lineUpdate_exit:
  "isSectionExit line \<Longrightarrow> controlBlocks (fst (lineUpdate st prev line)) = controlBlocks st"
  by (auto simp add: lineUpdate_def Let_def isSectionExit_def isSectionStart_def isSectionEnd_def)

lemma lineUpdate_flags:
  assumes "\<not> isSectionStart line" "\<not> inEquation st" "\<not> inAlgorithm st"
  shows "\<not> inEquation (fst (lineUpdate st prev line)) \<and> \<not> inAlgorithm (fst (lineUpdate st prev line))"
  using assms
  by (auto simp add: lineUpdate_def Let_def isSectionStart_def isSectionEnd_def startsWith_def)

lemma step_outside:
  assumes "\<not> isSectionStart (trim raw)" "\<not> inEquation st" "\<not> inAlgorithm st" "controlBlocks st = []"
    and "step tw st prev raw = Inr st'"
  shows "\<not> inEquation st' \<and> \<not> inAlgorithm st' \<and> controlBlocks st' = []"
proof -
  obtain st1 e where u: "lineUpdate st prev (trim raw) = (st1, e)"
    by (cases "lineUpdate st prev (trim raw)")
  have f: "\<not> inEquation st1 \<and> \<not> inAlgorithm st1"
    using lineUpdate_flags [OF assms(1-3), of prev] u by simp
  have c: "controlBlocks st1 = []"
    using lineUpdate_outside [OF assms(2,3), of prev "trim raw"] u assms(4) by simp
  show ?thesis
    using assms(5) u f c
    by (cases e) (auto simp add: step_def Let_def split: sum.splits)
qed

lemma scanLines_outside:
  assumes "\<forall>l \<in> set ls. \<not> isSectionStart (trim l)"
    and "\<not> inEquation st" "\<not> inAlgorithm st" "controlBlocks st = []"
    and "scanLines tw st prev ls = Inr st'"
  shows "\<not> inEquation st' \<and> \<not> inAlgorithm st' \<and> controlBlocks st' = []"
  using assms
proof (induction ls arbitrary: st prev)
  case Nil
  then show ?case by simp
next
  case (Cons l ls)
  from Cons.prems(5) obtain st1 where s1: "step tw st prev l = Inr st1"
    and s2: "scanLines tw st1 (Some l) ls = Inr st'"
    by (auto split: sum.splits)
  have "\<not> inEquation st1 \<and> \<not> inAlgorithm st1 \<and> controlBlocks st1 = []"
    using step_outside [OF _ Cons.prems(2-4) s1] Cons.prems(1) by simp
  then show ?case
    using Cons.IH [OF _ _ _ _ s2] Cons.prems(1) by simp
qed

text \<open>
  After \<open>equation\<close>, \<open>if x then\<close>, \<open>end\<close> no section is active and the frame of the
  \<open>if\<close> is still on the stack.
\<close>

theorem stack_left_behind_at_section_exit:
  "(case scanLines 2 initScan None [''equation'', ''if x then'', ''end''] of
      Inl e \<Rightarrow> False
    | Inr st \<Rightarrow>
        \<not> inEquation st \<and> \<not> inAlgorithm st \<and>
        controlBlocks st = [\<lparr>btype = ''if'', level = 1\<rparr>])"
  by code_simp

text \<open>
  C6, as the code has it. A line processed while no section is active leaves the stack as
  it is, so frames are pushed and popped inside an active section only; a line that leaves
  the section leaves the stack as it is too, whatever it holds; and the stack is empty, with
  no section active, as long as the scan has met no section header.
\<close>

theorem controlBlocks_change_only_in_section:
  "(\<not> inEquation st \<and> \<not> inAlgorithm st \<longrightarrow>
      controlBlocks (fst (lineUpdate st prev line)) = controlBlocks st) \<and>
   (isSectionExit exitLine \<longrightarrow>
      controlBlocks (fst (lineUpdate st2 prev2 exitLine)) = controlBlocks st2) \<and>
   ((\<forall>l \<in> set ls. \<not> isSectionStart (trim l)) \<and> scanLines tw initScan None ls = Inr st' \<longrightarrow>
      \<not> inEquation st' \<and> \<not> inAlgorithm st' \<and> controlBlocks st' = [])"
proof -
  have "\<not> inEquation initScan" "\<not> inAlgorithm initScan" "controlBlocks initScan = []"
    by (simp_all add: initScan_def)
  then show ?thesis
    using lineUpdate_outside lineUpdate_exit scanLines_outside by blast
qed

theorem controlBlocks_change_only_in_section_witness:
  "\<not> inEquation initScan \<and> \<not> inAlgorithm initScan \<and>
   controlBlocks (fst (lineUpdate initScan None ''if x then'')) = controlBlocks initScan \<and>
   isSectionExit ''end'' \<and>
   controlBlocks (fst (lineUpdate
       \<lparr>indentLevel = 1, inEquation = True, inAlgorithm = False,
        controlBlocks = [\<lparr>btype = ''if'', level = 1\<rparr>], result = []\<rparr> None ''end''))
     = [\<lparr>btype = ''if'', level = 1\<rparr>] \<and>
   scanLines 2 initScan None [''model A'', ''if x then'', ''end A;''] =
     Inr \<lparr>indentLevel = 0, inEquation = False, inAlgorithm = False, controlBlocks = [],
          result = [''model A'', ''  if x then'', ''end A;'']\<rparr>"
proof -
  have h1: "\<not> inEquation initScan \<and> \<not> inAlgorithm initScan"
    by (simp add: initScan_def)
  have h2: "isSectionExit ''end''"
    by (simp add: isSectionExit_def)
  have h3: "\<forall>l \<in> set [''model A'', ''if x then'', ''end A;'']. \<not> isSectionStart (trim l)"
    by code_simp
  have h4: "scanLines 2 initScan None [''model A'', ''if x then'', ''end A;''] =
     Inr \<lparr>indentLevel = 0, inEquation = False, inAlgorithm = False, controlBlocks = [],
          result = [''model A'', ''  if x then'', ''end A;'']\<rparr>"
    by code_simp
  show ?thesis
    using controlBlocks_change_only_in_section
      [of initScan None "''if x then''" "''end''"
          "\<lparr>indentLevel = 1, inEquation = True, inAlgorithm = False,
            controlBlocks = [\<lparr>btype = ''if'', level = 1\<rparr>], result = []\<rparr>" None
          "[''model A'', ''if x then'', ''end A;'']" 2
          "\<lparr>indentLevel = 0, inEquation = False, inAlgorithm = False, controlBlocks = [],
            result = [''model A'', ''  if x then'', ''end A;'']\<rparr>"]
      h1 h2 h3 h4
    by simp
qed

subsection \<open>Idempotence\<close>

text \<open>
  C3. The claim is that formatting formatted text changes nothing. The rule that puts a
  blank line after a section header adds a newline after every header that is not followed
  by white space up to the end of the text, also when a blank line follows already, and it
  runs after the rule that collapses blank lines: the output for \<open>equation\<close>, \<open>x\<close> has
  one blank line after the header, and formatting that output gives two.
\<close>

theorem formatModelica_not_idempotent:
  "formatModelica ''equation\<newline>x'' defaults = Inr ''equation\<newline>\<newline>  x'' \<and>
   formatModelica ''equation\<newline>\<newline>  x'' defaults = Inr ''equation\<newline>\<newline>\<newline>  x''"
  by code_simp

subsection \<open>Rounding to a double\<close>

text \<open>
  The exponent found for a positive rational is a lower bound of it, so rounding never
  exceeds a power of two that bounds its argument, and it leaves a natural number below
  \<open>2^53\<close> as it is.
\<close>

lemma ilog2_bounds: "0 < n \<Longrightarrow> 0 \<le> ilog2 n \<and> 2 ^ nat (ilog2 n) \<le> n \<and> n < 2 ^ nat (ilog2 n + 1)"
proof (induction n rule: ilog2.induct)
  case (1 n)
  show ?case
  proof (cases "n < 2")
    case True
    with "1.prems" have "n = 1" by simp
    then show ?thesis by (simp add: ilog2.simps)
  next
    case False
    then have p: "0 < n div 2" by simp
    from "1.IH" [OF False p] have
      a: "0 \<le> ilog2 (n div 2)" and b: "2 ^ nat (ilog2 (n div 2)) \<le> n div 2"
      and c: "n div 2 < 2 ^ nat (ilog2 (n div 2) + 1)"
      by simp_all
    have e: "ilog2 n = 1 + ilog2 (n div 2)"
      using False by (subst ilog2.simps) simp
    have n1: "nat (ilog2 n) = Suc (nat (ilog2 (n div 2)))"
      using a e by simp
    have n2: "nat (ilog2 n + 1) = Suc (nat (ilog2 (n div 2) + 1))"
      using a e by simp
    have "2 * 2 ^ nat (ilog2 (n div 2)) \<le> n"
      using b by linarith
    moreover have "n < 2 * 2 ^ nat (ilog2 (n div 2) + 1)"
      using c by linarith
    ultimately show ?thesis
      using a e n1 n2 by simp
  qed
qed

lemma exponent_le:
  assumes "0 < x"
  shows "2 powi (exponent x) \<le> x"
proof -
  obtain n d where q: "quotient_of x = (n, d)" by (cases "quotient_of x")
  have d: "0 < d" using q by (rule quotient_of_denom_pos)
  have x: "x = of_int n / of_int d" using q by (rule quotient_of_div)
  have n: "0 < n"
    using assms d x by (simp add: zero_less_divide_iff)
  let ?a = "ilog2 n" and ?b = "ilog2 d"
  from ilog2_bounds [OF n] have a: "0 \<le> ?a" "2 ^ nat ?a \<le> n" by simp_all
  from ilog2_bounds [OF d] have b: "0 \<le> ?b" "d < 2 ^ nat (?b + 1)" by simp_all
  show ?thesis
  proof (cases "2 powi (?a - ?b) \<le> x")
    case True
    then show ?thesis by (simp add: exponent_def q)
  next
    case False
    have "(of_int (2 ^ nat ?a) :: rat) \<le> of_int n"
      using a(2) by (simp only: of_int_le_iff)
    then have f1: "(2::rat) ^ nat ?a \<le> of_int n" by simp
    have "(of_int d :: rat) \<le> of_int (2 ^ nat (?b + 1))"
      using b(2) by (simp only: of_int_le_iff)
    then have f2: "(of_int d :: rat) \<le> 2 ^ nat (?b + 1)" by simp
    have f3: "(0::rat) < of_int d" using d by simp
    have e1: "?a - ?b - 1 = ?a - (?b + 1)" by simp
    have "(2::rat) powi (?a - ?b - 1) = 2 powi (?a - (?b + 1))"
      by (simp only: e1)
    also have "\<dots> = 2 powi ?a / 2 powi (?b + 1)"
      by (rule power_int_diff) simp
    also have "\<dots> = 2 ^ nat ?a / 2 ^ nat (?b + 1)"
      using a(1) b(1) by (simp add: power_int_def)
    also have "\<dots> \<le> of_int n / of_int d"
      using f1 f2 f3 n by (intro frac_le) simp_all
    finally have "(2::rat) powi (?a - ?b - 1) \<le> x" using x by simp
    then show ?thesis using False by (simp add: exponent_def q)
  qed
qed

lemma exponent_less:
  assumes "0 < x" "x < 2 ^ k"
  shows "exponent x < int k"
proof -
  have "(2::rat) powi (exponent x) < 2 powi (int k)"
    using exponent_le [OF assms(1)] assms(2) by simp
  then show ?thesis
    by (rule power_int_le_imp_less_exp [rotated]) simp_all
qed

lemma exponent_bound:
  assumes "0 < x" "x \<le> 2 ^ k"
  shows "exponent x \<le> int k"
proof -
  have "(2::rat) powi (exponent x) \<le> 2 powi (int k)"
    using exponent_le [OF assms(1)] assms(2) by simp
  then show ?thesis
    by (rule power_int_le_imp_le_exp [rotated]) simp_all
qed

lemma roundHalfEven_of_int: "roundHalfEven (of_int z) = z"
  by (simp add: roundHalfEven_def)

lemma roundHalfEven_le:
  assumes "y \<le> of_int z"
  shows "roundHalfEven y \<le> z"
proof -
  have f: "\<lfloor>y\<rfloor> \<le> z" using assms by (simp add: floor_le_iff)
  show ?thesis
  proof (cases "y = of_int \<lfloor>y\<rfloor>")
    case True
    have "roundHalfEven (of_int \<lfloor>y\<rfloor>) = \<lfloor>y\<rfloor>"
      by (rule roundHalfEven_of_int)
    with True have "roundHalfEven y = \<lfloor>y\<rfloor>"
      by (simp only:)
    with f show ?thesis by (simp only:)
  next
    case False
    have "of_int \<lfloor>y\<rfloor> \<le> y" by (rule of_int_floor_le)
    with False have "of_int \<lfloor>y\<rfloor> < y"
      by (metis order.not_eq_order_implies_strict)
    with assms have "(of_int \<lfloor>y\<rfloor> :: rat) < of_int z" by linarith
    then have "\<lfloor>y\<rfloor> < z" by (simp only: of_int_less_iff)
    then show ?thesis by (simp add: roundHalfEven_def Let_def)
  qed
qed

lemma roundHalfEven_nonneg: "0 \<le> y \<Longrightarrow> 0 \<le> roundHalfEven y"
  by (simp add: roundHalfEven_def Let_def)

lemma roundDouble_bounds:
  assumes "0 \<le> x" "x \<le> 2 ^ k"
  shows "0 \<le> roundDouble x \<and> roundDouble x \<le> 2 ^ k"
proof (cases "x = 0")
  case True
  then show ?thesis by (simp add: roundDouble_def)
next
  case False
  with assms have p: "0 < x" by simp
  let ?j = "max (exponent x) (- 1022) - 52"
  let ?q = "2 powi ?j :: rat"
  have q: "0 < ?q" by simp
  have j: "0 \<le> int k - ?j"
    using exponent_bound [OF p assms(2)] by simp
  have "x / ?q \<le> 2 ^ k / ?q"
    using assms(2) q by (simp add: divide_right_mono)
  also have "2 ^ k / ?q = 2 powi (int k - ?j)"
    by (simp add: power_int_diff)
  also have "\<dots> = of_int (2 ^ nat (int k - ?j))"
    using j by (simp add: power_int_def)
  finally have "roundHalfEven (x / ?q) \<le> 2 ^ nat (int k - ?j)"
    by (rule roundHalfEven_le)
  then have "(of_int (roundHalfEven (x / ?q)) :: rat) \<le> of_int (2 ^ nat (int k - ?j))"
    by (simp only: of_int_le_iff)
  then have "?q * of_int (roundHalfEven (x / ?q)) \<le> ?q * of_int (2 ^ nat (int k - ?j))"
    using q by (simp only: mult_le_cancel_left_pos)
  also have "?q * of_int (2 ^ nat (int k - ?j)) = ?q * 2 powi (int k - ?j)"
    using j by (simp add: power_int_def)
  also have "\<dots> = 2 ^ k"
    by (simp flip: power_int_add)
  finally have u: "roundDouble x \<le> 2 ^ k"
    using False by (simp add: roundDouble_def Let_def)
  have "0 \<le> x / ?q" using p q by simp
  then have "0 \<le> roundHalfEven (x / ?q)" by (rule roundHalfEven_nonneg)
  then have "0 \<le> ?q * of_int (roundHalfEven (x / ?q))" using q by simp
  then have "0 \<le> roundDouble x"
    using False by (simp add: roundDouble_def Let_def)
  with u show ?thesis by simp
qed

lemma roundDouble_of_nat:
  assumes "m < 2 ^ 53"
  shows "roundDouble (of_nat m) = of_nat m"
proof (cases "m = 0")
  case True
  then show ?thesis by (simp add: roundDouble_def)
next
  case False
  let ?x = "of_nat m :: rat"
  have p: "0 < ?x" using False by simp
  have "?x < 2 ^ 53" using assms by (metis of_nat_less_iff of_nat_numeral of_nat_power)
  from exponent_less [OF p this] have e: "exponent ?x < 53" by simp
  let ?j = "max (exponent ?x) (- 1022) - 52"
  let ?q = "2 powi ?j :: rat"
  have j: "0 \<le> - ?j" using e by simp
  have q: "?q \<noteq> 0" by simp
  have i: "(2::rat) powi (- ?j) * ?q = 1"
    using power_int_add [of "2::rat" "- ?j" ?j] by simp
  have "?x / ?q = ?x * 2 powi (- ?j)"
    by (simp only: power_int_minus_divide [of "2::rat" ?j]) simp
  also have "\<dots> = of_int (int m * 2 ^ nat (- ?j))"
    using j by (simp add: power_int_def)
  finally have "roundHalfEven (?x / ?q) = int m * 2 ^ nat (- ?j)"
    by (simp only: roundHalfEven_of_int)
  then have "?q * of_int (roundHalfEven (?x / ?q)) = ?q * (?x * 2 ^ nat (- ?j))"
    by simp
  also have "\<dots> = ?x * (?q * 2 powi (- ?j))"
    using j by (simp add: power_int_def)
  also have "?q * 2 powi (- ?j) = 1"
    using i by (simp only: mult.commute)
  finally show ?thesis
    using False by (simp add: roundDouble_def Let_def)
qed

lemma toNumber_of_nat:
  assumes "m < 2 ^ 53"
  shows "toNumber (of_nat m) = Fin (of_nat m)"
proof -
  have "(of_nat m :: rat) < 2 ^ 53"
    using assms by (metis of_nat_less_iff of_nat_numeral of_nat_power)
  also have "(2::rat) ^ 53 \<le> 2 ^ 1024" by (rule power_increasing) simp_all
  also have "(2::rat) ^ 1024 = of_int (2 ^ 1024)" by (simp only: of_int_power of_int_numeral)
  finally have "\<not> (of_int (2 ^ 1024) :: rat) \<le> of_nat m" by (simp only: not_le)
  then show ?thesis
    by (simp only: toNumber_def roundDouble_of_nat [OF assms] Let_def if_False)
qed

lemma toNumber_bounded:
  assumes "0 \<le> x" "x \<le> 2 ^ k" "k < 1024"
  shows "\<exists>r. toNumber x = Fin r \<and> 0 \<le> r \<and> r \<le> 2 ^ k"
proof -
  from roundDouble_bounds [OF assms(1,2)] have r: "0 \<le> roundDouble x" "roundDouble x \<le> 2 ^ k"
    by simp_all
  note r(2)
  also have "(2::rat) ^ k < 2 ^ 1024"
    by (rule power_strict_increasing) (use assms(3) in simp_all)
  also have "(2::rat) ^ 1024 = of_int (2 ^ 1024)" by (simp only: of_int_power of_int_numeral)
  finally have "\<not> (of_int (2 ^ 1024) :: rat) \<le> roundDouble x" by (simp only: not_le)
  then have "toNumber x = Fin (roundDouble x)"
    by (simp only: toNumber_def Let_def if_False)
  with r show ?thesis by blast
qed

subsection \<open>The corrective pass\<close>

text \<open>
  No line of a text is as long as \<open>2^53\<close> characters (a string's length is below that),
  and neither is \<open>tabWidth\<close> when \<open>' '.repeat(tabWidth)\<close> has returned. Under these
  bounds the level of a header is at most \<open>2^53\<close>, the count given to \<open>repeat\<close> is
  finite and not negative, and the pass returns its lines, as many as it was given. Where
  \<open>tabWidth\<close> divides the width of the header's indentation, the quotient, the sum and
  the product are natural numbers below \<open>2^53\<close> and the arithmetic is exact.
\<close>

lemma concat_replicate_single: "concat (replicate n [c]) = replicate n c"
  by (induction n) simp_all

lemma concat_replicate_replicate: "concat (replicate n (replicate m c)) = replicate (n * m) c"
  by (induction n) (simp_all add: replicate_add)

lemma toInteger_of_nat: "toInteger (of_nat n) = int n"
  by (simp add: toInteger_def)

lemma repeat_of_nat: "repeat [c] (int n) = Inr (replicate n c)"
  by (simp add: repeat_def concat_replicate_single)

lemma header_level_ok:
  assumes "len < 2 ^ 53"
  shows "okLevel tw (numDiv (Fin (of_nat len)) (Fin (of_nat tw)))"
proof (cases "tw = 0")
  case True
  then show ?thesis by (simp add: okLevel_def)
next
  case False
  let ?x = "of_nat len / of_nat tw :: rat"
  have "1 \<le> (of_nat tw :: rat)" using False by simp
  then have "?x \<le> of_nat len"
    by (simp add: divide_le_eq mult_le_cancel_left1)
  also have "(of_nat len :: rat) \<le> 2 ^ 53"
    using assms by (metis less_imp_le of_nat_le_iff of_nat_numeral of_nat_power)
  finally have u: "?x \<le> 2 ^ 53" .
  have l: "0 \<le> ?x" by simp
  from toNumber_bounded [OF l u] obtain r where "toNumber ?x = Fin r" "0 \<le> r" "r \<le> 2 ^ 53"
    by auto
  then show ?thesis using False by (simp add: okLevel_def)
qed

lemma reindent_total:
  assumes "okLevel tw lvl" "tw < 2 ^ 53"
  shows "\<exists>n. \<forall>line. reindent tw lvl line = Inr (replicate n CHR '' '' @ line)"
proof (cases lvl)
  case (Fin r)
  with assms(1) have r: "0 \<le> r" "r \<le> 2 ^ 53" by (simp_all add: okLevel_def)
  have "r + 1 \<le> 2 ^ 53 + 2 ^ 53" using r(2) by (simp add: add_mono)
  then have "r + 1 \<le> 2 ^ 54" by simp
  moreover have "0 \<le> r + 1" using r(1) by simp
  ultimately obtain r1 where r1: "toNumber (r + 1) = Fin r1" "0 \<le> r1" "r1 \<le> 2 ^ 54"
    using toNumber_bounded [of "r + 1" 54] by auto
  have t: "(of_nat tw :: rat) \<le> 2 ^ 53"
    using assms(2) by (metis less_imp_le of_nat_le_iff of_nat_numeral of_nat_power)
  have "r1 * of_nat tw \<le> 2 ^ 54 * 2 ^ 53"
    using r1(2,3) t by (intro mult_mono) simp_all
  then have "r1 * of_nat tw \<le> 2 ^ 107" by simp
  moreover have "0 \<le> r1 * of_nat tw" using r1(2) by simp
  ultimately obtain r2 where r2: "toNumber (r1 * of_nat tw) = Fin r2" "0 \<le> r2"
    using toNumber_bounded [of "r1 * of_nat tw" 107] by auto
  have "0 \<le> toInteger r2" using r2(2) by (simp add: toInteger_def)
  then have "\<forall>line. reindent tw lvl line = Inr (replicate (nat (toInteger r2)) CHR '' '' @ line)"
    using Fin r1(1) r2(1)
    by (simp add: reindent_def repeatNumber_def repeat_def concat_replicate_single)
  then show ?thesis by blast
next
  case Inf
  with assms(1) have "tw = 0" by (simp add: okLevel_def)
  with Inf have "\<forall>line. reindent tw lvl line = Inr (replicate 0 CHR '' '' @ line)"
    by (simp add: reindent_def repeatNumber_def repeat_def)
  then show ?thesis by blast
next
  case NaN
  then have "\<forall>line. reindent tw lvl line = Inr (replicate 0 CHR '' '' @ line)"
    by (simp add: reindent_def repeatNumber_def repeat_def)
  then show ?thesis by blast
qed

lemma reindent_exact:
  assumes "0 < tw" "tw dvd len" "len + tw < 2 ^ 53"
  shows "reindent tw (numDiv (Fin (of_nat len)) (Fin (of_nat tw))) line =
         Inr (replicate ((len div tw + 1) * tw) CHR '' '' @ line)"
proof -
  let ?k = "len div tw"
  have len: "len = ?k * tw" using assms(2) by simp
  have s: "(?k + 1) * tw = len + tw" using len by (simp add: algebra_simps)
  have "?k \<le> len" by (rule div_le_dividend)
  then have k: "?k < 2 ^ 53" "?k + 1 < 2 ^ 53" using assms(1,3) by linarith+
  have m: "(?k + 1) * tw < 2 ^ 53" using s assms(3) by simp
  have "(of_nat len :: rat) = of_nat ?k * of_nat tw"
    using len by (metis of_nat_mult)
  then have "(of_nat len :: rat) / of_nat tw = of_nat ?k"
    using assms(1) by simp
  then have d: "numDiv (Fin (of_nat len)) (Fin (of_nat tw)) = Fin (of_nat ?k)"
    using assms(1) toNumber_of_nat [OF k(1)] by simp
  have "(of_nat ?k :: rat) + 1 = of_nat (?k + 1)" by simp
  then have a: "numAdd (Fin (of_nat ?k)) (Fin 1) = Fin (of_nat (?k + 1))"
    using toNumber_of_nat [OF k(2)] by (simp only: numAdd.simps)
  have "(of_nat (?k + 1) :: rat) * of_nat tw = of_nat ((?k + 1) * tw)"
    by (simp only: of_nat_mult)
  then have u: "numMul (Fin (of_nat (?k + 1))) (Fin (of_nat tw)) = Fin (of_nat ((?k + 1) * tw))"
    using toNumber_of_nat [OF m] by (simp only: numMul.simps)
  show ?thesis
    by (simp only: reindent_def d a u repeatNumber_def number.case toInteger_of_nat
        repeat_of_nat sum.case)
qed

lemma keyword_not_section:
  assumes "isIfWhen s \<or> isElse s \<or> isControlEnd s"
  shows "\<not> isSectionStart s \<and> \<not> isSectionExit s"
  using assms
  by (auto simp add: isIfWhen_def isElse_def isControlEnd_def isSectionStart_def
      isSectionExit_def startsWith_def)

lemma leadingSpace_length: "length (leadingSpace x) \<le> length x"
  by (simp add: leadingSpace_def length_takeWhile_le)

lemma fixLines_total:
  assumes "tw < 2 ^ 53"
  shows "okLevel tw lvl \<Longrightarrow> \<forall>x \<in> set ls. length x < 2 ^ 53 \<Longrightarrow>
         \<exists>out. fixLines tw b lvl ls = Inr out \<and> length out = length ls"
proof (induction ls arbitrary: b lvl)
  case Nil
  then show ?case by simp
next
  case (Cons raw ls)
  let ?h = "numDiv (Fin (of_nat (length (leadingSpace raw)))) (Fin (of_nat tw))"
  have "length (leadingSpace raw) < 2 ^ 53"
    using Cons.prems(2) leadingSpace_length [of raw] by (simp add: le_less_trans)
  then have h: "okLevel tw ?h" by (rule header_level_ok)
  have r: "\<forall>x \<in> set ls. length x < 2 ^ 53" using Cons.prems(2) by simp
  from reindent_total [OF Cons.prems(1) assms] obtain n where
    n: "\<And>line. reindent tw lvl line = Inr (replicate n CHR '' '' @ line)" by blast
  from Cons.IH [OF h r, of True] Cons.IH [OF Cons.prems(1) r, of False]
    Cons.IH [OF Cons.prems(1) r, of b]
  show ?case
    by (auto simp add: Let_def consLine_def n)
qed

lemma fixLines_Cons:
  assumes "okLevel tw lvl" "length raw < 2 ^ 53" and "fixLines tw b lvl (raw # rest) = Inr out"
  shows "\<exists>b1 lvl1 x o'. okLevel tw lvl1 \<and> fixLines tw b1 lvl1 rest = Inr o' \<and> out = x # o'"
proof (cases "isSectionStart (trim raw)")
  case True
  let ?h = "numDiv (Fin (of_nat (length (leadingSpace raw)))) (Fin (of_nat tw))"
  from True assms(3) obtain o' where "fixLines tw True ?h rest = Inr o'" "out = raw # o'"
    by (auto simp add: Let_def consLine_def split: sum.splits)
  moreover have "length (leadingSpace raw) < 2 ^ 53"
    using assms(2) leadingSpace_length [of raw] by (simp add: le_less_trans)
  then have "okLevel tw ?h" by (rule header_level_ok)
  ultimately show ?thesis by blast
next
  case False
  with assms(3) obtain b1 x o' where "fixLines tw b1 lvl rest = Inr o'" "out = x # o'"
    by (auto simp add: Let_def consLine_def split: if_splits sum.splits)
  with assms(1) show ?thesis by blast
qed

lemma fixLines_skip:
  assumes "okLevel tw lvl" "\<forall>x \<in> set pre. length x < 2 ^ 53"
    and "fixLines tw b lvl (pre @ rest) = Inr out"
  shows "\<exists>b' lvl' o1 o2. okLevel tw lvl' \<and> out = o1 @ o2 \<and> length o1 = length pre \<and>
           fixLines tw b' lvl' rest = Inr o2"
  using assms
proof (induction pre arbitrary: b lvl out)
  case Nil
  then show ?case by auto
next
  case (Cons raw pre)
  from Cons.prems(3) have e: "fixLines tw b lvl (raw # (pre @ rest)) = Inr out"
    by (simp only: append_Cons)
  have l: "length raw < 2 ^ 53" and r: "\<forall>x \<in> set pre. length x < 2 ^ 53"
    using Cons.prems(2) by simp_all
  from fixLines_Cons [OF Cons.prems(1) l e] obtain b1 lvl1 x o' where
    n: "okLevel tw lvl1" and f: "fixLines tw b1 lvl1 (pre @ rest) = Inr o'" and o: "out = x # o'"
    by blast
  from Cons.IH [OF n r f] obtain b' lvl' o1 o2 where
    "okLevel tw lvl'" "o' = o1 @ o2" "length o1 = length pre" "fixLines tw b' lvl' rest = Inr o2"
    by blast
  then have "okLevel tw lvl' \<and> out = (x # o1) @ o2 \<and> length (x # o1) = length (raw # pre) \<and>
             fixLines tw b' lvl' rest = Inr o2"
    using o by simp
  then show ?case by blast
qed

lemma fixLines_header:
  assumes "isSectionStart (trim h)" and "fixLines tw b lvl (h # rest) = Inr out"
  shows "\<exists>o2. out = h # o2 \<and>
           fixLines tw True (numDiv (Fin (of_nat (length (leadingSpace h)))) (Fin (of_nat tw))) rest
             = Inr o2"
  using assms by (auto simp add: Let_def consLine_def split: sum.splits)

lemma fixLines_inside:
  assumes "\<forall>m \<in> set mid. \<not> isSectionStart (trim m) \<and> \<not> isSectionExit (trim m)"
    and "fixLines tw True lvl (mid @ rest) = Inr out"
  shows "\<exists>o1 o2. out = o1 @ o2 \<and> length o1 = length mid \<and> fixLines tw True lvl rest = Inr o2"
  using assms
proof (induction mid arbitrary: out)
  case Nil
  then show ?case by auto
next
  case (Cons m mid)
  from Cons.prems(2) Cons.prems(1) obtain x o' where
    r: "fixLines tw True lvl (mid @ rest) = Inr o'" and o: "out = x # o'"
    by (auto simp add: Let_def consLine_def split: if_splits sum.splits)
  from Cons.IH [OF _ r] Cons.prems(1) obtain o1 o2 where
    "o' = o1 @ o2" "length o1 = length mid" "fixLines tw True lvl rest = Inr o2"
    by auto
  then have "out = (x # o1) @ o2 \<and> length (x # o1) = length (m # mid) \<and>
             fixLines tw True lvl rest = Inr o2"
    using o by simp
  then show ?case by blast
qed

lemma fixLines_keyword:
  assumes "isIfWhen (trim l) \<or> isElse (trim l) \<or> isControlEnd (trim l)"
    and "fixLines tw True lvl (l # post) = Inr out"
  shows "\<exists>x o2. out = x # o2 \<and> reindent tw lvl (trim l) = Inr x"
  using assms(2) keyword_not_section [OF assms(1)] assms(1)
  by (auto simp add: Let_def consLine_def split: if_splits sum.splits)

lemma section_line_reindented:
  assumes tw: "tw < 2 ^ 53"
    and len: "\<forall>x \<in> set (pre @ h # mid @ l # post). length x < 2 ^ 53"
    and hd: "isSectionStart (trim h)"
    and mid: "\<forall>m \<in> set mid. \<not> isSectionStart (trim m) \<and> \<not> isSectionExit (trim m)"
    and kw: "isIfWhen (trim l) \<or> isElse (trim l) \<or> isControlEnd (trim l)"
  shows "\<exists>out. correctivePass tw (pre @ h # mid @ l # post) = Inr out \<and>
           length out = length (pre @ h # mid @ l # post) \<and>
           reindent tw (numDiv (Fin (of_nat (length (leadingSpace h)))) (Fin (of_nat tw))) (trim l)
             = Inr (out ! (length pre + 1 + length mid))"
proof -
  let ?lvl = "numDiv (Fin (of_nat (length (leadingSpace h)))) (Fin (of_nat tw))"
  have z: "okLevel tw (Fin 0)" by (simp add: okLevel_def)
  have lp: "\<forall>x \<in> set pre. length x < 2 ^ 53" using len by simp
  obtain out where out: "fixLines tw False (Fin 0) (pre @ h # mid @ l # post) = Inr out"
    and n: "length out = length (pre @ h # mid @ l # post)"
    using fixLines_total [OF tw z len] by blast
  from fixLines_skip [OF z lp out] obtain b' lvl' o1 o2 where
    a: "out = o1 @ o2" "length o1 = length pre" "fixLines tw b' lvl' (h # mid @ l # post) = Inr o2"
    by blast
  from fixLines_header [OF hd a(3)] obtain o3 where
    b: "o2 = h # o3" "fixLines tw True ?lvl (mid @ l # post) = Inr o3"
    by blast
  from fixLines_inside [OF mid b(2)] obtain o4 o5 where
    c: "o3 = o4 @ o5" "length o4 = length mid" "fixLines tw True ?lvl (l # post) = Inr o5"
    by blast
  from fixLines_keyword [OF kw c(3)] obtain x o6 where
    d: "o5 = x # o6" "reindent tw ?lvl (trim l) = Inr x"
    by blast
  have "out = (o1 @ h # o4) @ x # o6"
    using a b c d by simp
  moreover have "length (o1 @ h # o4) = length pre + 1 + length mid"
    using a c by simp
  ultimately have "out ! (length pre + 1 + length mid) = x"
    by (metis nth_append_length)
  then show ?thesis
    using out n d(2) by (simp add: correctivePass_def)
qed

text \<open>
  The engine emits a section header behind \<open>indentLevel\<close> copies of the indent: the
  width of its indentation is a multiple of \<open>tabWidth\<close>.
\<close>

lemma engine_header_indent:
  assumes "isSectionStart (trim raw)" and "step tw st prev raw = Inr st'"
  shows "tw dvd length (leadingSpace (last (result st')))"
proof -
  let ?line = "trim raw"
  have ne: "?line \<noteq> []" using assms(1) by (auto simp add: isSectionStart_def)
  have u: "lineUpdate st prev ?line =
      (st\<lparr>inEquation := includesStr ?line ''equation'',
          inAlgorithm := includesStr ?line ''algorithm''\<rparr>, At (indentLevel st))"
    using ne assms(1) by (simp add: lineUpdate_def)
  from assms(2) u have k: "0 \<le> indentLevel st"
    and r: "result st' = result st @
              [concat (replicate (nat (indentLevel st)) (replicate tw CHR '' '')) @ ?line]"
    by (auto simp add: step_def Let_def repeat_def split: if_splits)
  have s: "\<not> isSpace (hd ?line)"
    using assms(1) by (auto simp add: isSectionStart_def isSpace_def)
  have "leadingSpace (replicate n CHR '' '' @ ?line) = replicate n CHR '' ''" for n
    using ne s by (cases ?line) (auto simp add: leadingSpace_def isSpace_def takeWhile_append)
  then have "length (leadingSpace (last (result st'))) = nat (indentLevel st) * tw"
    using r by (simp add: concat_replicate_replicate)
  then show ?thesis by simp
qed

text \<open>
  C4. Let \<open>h\<close> be a section header whose indentation is a multiple of a positive
  \<open>tabWidth\<close>, \<open>mid\<close> lines after it none of which is a section header or leaves the
  section, and \<open>l\<close> a following line that is an \<open>if\<close>/\<open>when\<close> header ending in
  \<open>then\<close>, an \<open>else\<close>/\<open>elseif\<close> line or an \<open>end if\<close>/\<open>end when\<close>/\<open>end for\<close>
  line. Whatever stands before \<open>h\<close> and after \<open>l\<close>, and however deep \<open>l\<close> is nested
  in \<open>mid\<close>, the pass returns, and it rewrites \<open>l\<close> to its trimmed text behind
  \<open>(level + 1) * tabWidth\<close> spaces, where \<open>level\<close> is the width of the header's
  indentation divided by \<open>tabWidth\<close>.
\<close>

theorem corrective_pass_one_level_below_header:
  assumes "0 < tw" and "tw < 2 ^ 52"
    and "\<forall>x \<in> set (pre @ h # mid @ l # post). length x < 2 ^ 52"
    and "isSectionStart (trim h)"
    and "tw dvd length (leadingSpace h)"
    and "\<forall>m \<in> set mid. \<not> isSectionStart (trim m) \<and> \<not> isSectionExit (trim m)"
    and "isIfWhen (trim l) \<or> isElse (trim l) \<or> isControlEnd (trim l)"
  shows "\<exists>out. correctivePass tw (pre @ h # mid @ l # post) = Inr out \<and>
           length out = length (pre @ h # mid @ l # post) \<and>
           out ! (length pre + 1 + length mid) =
             replicate ((length (leadingSpace h) div tw + 1) * tw) CHR '' '' @ trim l"
proof -
  have t: "tw < 2 ^ 53" using assms(2) by simp
  have n: "\<forall>x \<in> set (pre @ h # mid @ l # post). length x < 2 ^ 53"
    using assms(3) by fastforce
  have "length (leadingSpace h) < 2 ^ 52"
    using assms(3) leadingSpace_length [of h] by (simp add: le_less_trans)
  then have s: "length (leadingSpace h) + tw < 2 ^ 53"
    using assms(2) by simp
  from section_line_reindented [OF t n assms(4) assms(6) assms(7)]
  obtain out where o: "correctivePass tw (pre @ h # mid @ l # post) = Inr out"
    and c: "length out = length (pre @ h # mid @ l # post)"
    and r: "reindent tw (numDiv (Fin (of_nat (length (leadingSpace h)))) (Fin (of_nat tw))) (trim l)
              = Inr (out ! (length pre + 1 + length mid))"
    by (elim exE conjE)
  from r have "out ! (length pre + 1 + length mid) =
      replicate ((length (leadingSpace h) div tw + 1) * tw) CHR '' '' @ trim l"
    by (simp only: reindent_exact [OF assms(1) assms(5) s] sum.inject)
  with o c show ?thesis
    by (intro exI [of _ out] conjI)
qed

theorem corrective_pass_one_level_below_header_witness:
  "isSectionStart (trim ''  equation'') \<and> 2 dvd length (leadingSpace ''  equation'') \<and>
   isIfWhen (trim ''      if b then'') \<and>
   (\<exists>out. correctivePass 2
       [''model A'', ''  equation'', [], ''    if a then'', ''      if b then'',
        ''        x = 1;'', ''      end if;'', ''    end if;'', ''end A;''] = Inr out \<and>
     length out = 9 \<and> out ! 4 = ''    if b then'')"
proof -
  have h0: "(0::nat) < 2" "(2::nat) < 2 ^ 52" by simp_all
  have hl: "\<forall>x \<in> set ([''model A''] @ ''  equation'' # [[], ''    if a then''] @ ''      if b then'' #
           [''        x = 1;'', ''      end if;'', ''    end if;'', ''end A;'']). length x < 2 ^ 52"
    by simp
  have h1: "isSectionStart (trim ''  equation'')" by code_simp
  have hd: "2 dvd length (leadingSpace ''  equation'')" by code_simp
  have h2: "\<forall>m \<in> set [[], ''    if a then'']. \<not> isSectionStart (trim m) \<and> \<not> isSectionExit (trim m)"
    by code_simp
  have k: "isIfWhen (trim ''      if b then'')" by code_simp
  then have h3: "isIfWhen (trim ''      if b then'') \<or> isElse (trim ''      if b then'') \<or>
                 isControlEnd (trim ''      if b then'')" by simp
  have e: "replicate ((length (leadingSpace ''  equation'') div 2 + 1) * 2) CHR '' '' @
             trim ''      if b then'' = ''    if b then''"
    by code_simp
  from corrective_pass_one_level_below_header [OF h0 hl h1 hd h2 h3]
  obtain out where
    o: "correctivePass 2
          ([''model A''] @ ''  equation'' # [[], ''    if a then''] @ ''      if b then'' #
           [''        x = 1;'', ''      end if;'', ''    end if;'', ''end A;'']) = Inr out"
    and n: "length out =
          length ([''model A''] @ ''  equation'' # [[], ''    if a then''] @ ''      if b then'' #
           [''        x = 1;'', ''      end if;'', ''    end if;'', ''end A;''])"
    and i: "out ! (length [''model A''] + 1 + length [[], ''    if a then'']) =
          replicate ((length (leadingSpace ''  equation'') div 2 + 1) * 2) CHR '' '' @
            trim ''      if b then''"
    by (elim exE conjE)
  have idx: "length [''model A''] + 1 + length [[], ''    if a then''] = 4"
    by simp
  have o4: "out ! 4 = ''    if b then''"
    using i unfolding idx e .
  have o9: "length out = 9"
    using n by simp
  have oc: "correctivePass 2
       [''model A'', ''  equation'', [], ''    if a then'', ''      if b then'',
        ''        x = 1;'', ''      end if;'', ''    end if;'', ''end A;''] = Inr out"
    using o by simp
  show ?thesis
  proof (intro conjI)
    show "isSectionStart (trim ''  equation'')" by (rule h1)
    show "2 dvd length (leadingSpace ''  equation'')" by (rule hd)
    show "isIfWhen (trim ''      if b then'')" by (rule k)
    show "\<exists>out. correctivePass 2
       [''model A'', ''  equation'', [], ''    if a then'', ''      if b then'',
        ''        x = 1;'', ''      end if;'', ''    end if;'', ''end A;''] = Inr out \<and>
     length out = 9 \<and> out ! 4 = ''    if b then''"
      using oc o9 o4 by (intro exI [of _ out] conjI)
  qed
qed

text \<open>
  An \<open>if\<close> nested in an \<open>if\<close>: both headers and both \<open>end if\<close> lines come out at the
  same depth, one level below the \<open>equation\<close> header.
\<close>

lemma nested_control_structure_flattened:
  "correctivePass 2
     [''model A'', ''  equation'', [], ''    if a then'', ''      if b then'',
      ''        x = 1;'', ''      end if;'', ''    end if;'', ''end A;'']
   = Inr [''model A'', ''  equation'', [], ''    if a then'', ''    if b then'',
      ''        x = 1;'', ''    end if;'', ''    end if;'', ''end A;'']"
  by code_simp

text \<open>
  Where \<open>tabWidth\<close> does not divide the width of the header's indentation the doubles
  decide: with a \<open>tabWidth\<close> of 3 and a header behind 4 spaces, \<open>(4 / 3 + 1) * 3\<close> is
  the double just below 7, and the line is rewritten behind 6 spaces.
\<close>

lemma header_width_not_a_multiple:
  "numMul (numAdd (numDiv (Fin 4) (Fin 3)) (Fin 1)) (Fin 3) = Fin (7881299347898367 / 2 ^ 50) \<and>
   correctivePass 3 [''    equation'', ''else''] = Inr [''    equation'', ''      else'']"
  by code_simp

subsection \<open>Minus signs\<close>

text \<open>
  C5. The claim is that \<open>x = 1 - 2;\<close>, \<open>x = -1;\<close> and \<open>1e-5\<close> come out of the
  pipeline unchanged. The last two do. In the first, the rule for subtraction leaves
  \<open>1 - 2\<close> as it is, and the rule for the sign of a literal then matches the space before
  the minus sign as its first group and removes the space after it: the output is
  \<open>x = 1 -2;\<close>.
\<close>

theorem subtraction_of_literal_loses_space:
  "formatModelica ''x = 1 - 2;'' defaults = Inr ''x = 1 -2;'' \<and>
   applyRules [minusSubtraction] ''x = 1 - 2;'' = ''x = 1 - 2;'' \<and>
   applyRules [minusLiteral] ''x = 1 - 2;'' = ''x = 1 -2;'' \<and>
   formatModelica ''x = -1;'' defaults = Inr ''x = -1;'' \<and>
   formatModelica ''1e-5'' defaults = Inr ''1e-5''"
  by code_simp

subsection \<open>If and else in an equation section\<close>

text \<open>
  Both passes recognise an \<open>else\<close> line by \<open>line === 'else'\<close> (or a line that starts
  with \<open>elseif \<close>). An \<open>else\<close> followed by a comment is an ordinary statement to them:
  it stays one level below its \<open>if\<close>.
\<close>

theorem else_with_comment_not_aligned:
  "map_sum id (split CHR ''\<newline>'')
     (formatModelica
        ''equation\<newline>if x > 0 then\<newline>y = 1;\<newline>else // c\<newline>y = -1;\<newline>end if;'' defaults)
   = Inr [''equation'', [], ''  if x > 0 then'', ''    y = 1;'', ''    else // c'', ''    y = -1;'',
          ''  end if;''] \<and>
   leadingSpace ''  if x > 0 then'' = ''  '' \<and> leadingSpace ''    else // c'' = ''    ''"
  by code_simp

text \<open>
  C7, as the code has it. In a section, the corrective pass puts a line that is exactly
  \<open>else\<close>, or starts with \<open>elseif \<close>, behind the same number of spaces as an
  \<open>if\<close>/\<open>when\<close> header ending in \<open>then\<close> of that section, wherever the two lines
  stand in it. For the lines \<open>if x > 0 then\<close>, \<open>y = 1;\<close>, \<open>else\<close>, \<open>y = -1;\<close>,
  \<open>end if;\<close> after an \<open>equation\<close> header, the output of the pipeline has the \<open>else\<close>
  line at the indentation of the \<open>if\<close> line, with the default indent width of 2 and with
  a width of 4.
\<close>

theorem else_line_at_indentation_of_if_header:
  assumes "tw < 2 ^ 53"
    and "\<forall>x \<in> set (pre @ h # mid1 @ i # mid2 @ e # post). length x < 2 ^ 53"
    and "isSectionStart (trim h)"
    and "\<forall>m \<in> set mid1. \<not> isSectionStart (trim m) \<and> \<not> isSectionExit (trim m)"
    and "\<forall>m \<in> set mid2. \<not> isSectionStart (trim m) \<and> \<not> isSectionExit (trim m)"
    and "isIfWhen (trim i)" and "isElse (trim e)"
  shows "(\<exists>out n. correctivePass tw (pre @ h # mid1 @ i # mid2 @ e # post) = Inr out \<and>
            out ! (length pre + 1 + length mid1) = replicate n CHR '' '' @ trim i \<and>
            out ! (length pre + 2 + length mid1 + length mid2) = replicate n CHR '' '' @ trim e) \<and>
         map_sum id (split CHR ''\<newline>'')
           (formatModelica
              ''equation\<newline>if x > 0 then\<newline> y = 1;\<newline>else\<newline> y = -1;\<newline>end if;'' defaults)
         = Inr [''equation'', [], ''  if x > 0 then'', ''    y = 1;'', ''  else'', ''    y = -1;'',
                ''  end if;''] \<and>
         map_sum id (split CHR ''\<newline>'')
           (formatModelica
              ''equation\<newline>if x > 0 then\<newline> y = 1;\<newline>else\<newline> y = -1;\<newline>end if;''
              \<lparr>tabWidth = Some 4, printWidth = None\<rparr>)
         = Inr [''equation'', [], ''    if x > 0 then'', ''        y = 1;'', ''    else'',
                ''        y = -1;'', ''    end if;'']"
proof -
  let ?lvl = "numDiv (Fin (of_nat (length (leadingSpace h)))) (Fin (of_nat tw))"
  let ?ls = "pre @ h # mid1 @ i # mid2 @ e # post"
  have ki: "isIfWhen (trim i) \<or> isElse (trim i) \<or> isControlEnd (trim i)"
    using assms(6) by simp
  have ke: "isIfWhen (trim e) \<or> isElse (trim e) \<or> isControlEnd (trim e)"
    using assms(7) by simp
  have m: "\<forall>m \<in> set (mid1 @ i # mid2). \<not> isSectionStart (trim m) \<and> \<not> isSectionExit (trim m)"
    using assms(4,5) keyword_not_section [OF ki] by auto
  have l2: "\<forall>x \<in> set (pre @ h # (mid1 @ i # mid2) @ e # post). length x < 2 ^ 53"
    using assms(2) by simp
  from section_line_reindented [OF assms(1) assms(2) assms(3) assms(4) ki]
  obtain out where o: "correctivePass tw ?ls = Inr out"
    and ri: "reindent tw ?lvl (trim i) = Inr (out ! (length pre + 1 + length mid1))"
    by (elim exE conjE)
  from section_line_reindented [OF assms(1) l2 assms(3) m ke]
  obtain out' where o': "correctivePass tw (pre @ h # (mid1 @ i # mid2) @ e # post) = Inr out'"
    and re: "reindent tw ?lvl (trim e) = Inr (out' ! (length pre + 1 + length (mid1 @ i # mid2)))"
    by (elim exE conjE)
  have "out' = out" using o o' by simp
  then have re': "reindent tw ?lvl (trim e) = Inr (out ! (length pre + 2 + length mid1 + length mid2))"
    using re by (simp add: add.commute add.left_commute)
  have "length (leadingSpace h) < 2 ^ 53"
    using assms(2) leadingSpace_length [of h] by (simp add: le_less_trans)
  then have "okLevel tw ?lvl" by (rule header_level_ok)
  from reindent_total [OF this assms(1)] obtain n where
    n: "\<And>line. reindent tw ?lvl line = Inr (replicate n CHR '' '' @ line)" by blast
  have "out ! (length pre + 1 + length mid1) = replicate n CHR '' '' @ trim i"
    using ri n [of "trim i"] by simp
  moreover have "out ! (length pre + 2 + length mid1 + length mid2) = replicate n CHR '' '' @ trim e"
    using re' n [of "trim e"] by simp
  ultimately have g: "\<exists>out n. correctivePass tw ?ls = Inr out \<and>
            out ! (length pre + 1 + length mid1) = replicate n CHR '' '' @ trim i \<and>
            out ! (length pre + 2 + length mid1 + length mid2) = replicate n CHR '' '' @ trim e"
    using o by blast
  have x2: "map_sum id (split CHR ''\<newline>'')
           (formatModelica
              ''equation\<newline>if x > 0 then\<newline> y = 1;\<newline>else\<newline> y = -1;\<newline>end if;'' defaults)
         = Inr [''equation'', [], ''  if x > 0 then'', ''    y = 1;'', ''  else'', ''    y = -1;'',
                ''  end if;'']"
    by code_simp
  have x4: "map_sum id (split CHR ''\<newline>'')
           (formatModelica
              ''equation\<newline>if x > 0 then\<newline> y = 1;\<newline>else\<newline> y = -1;\<newline>end if;''
              \<lparr>tabWidth = Some 4, printWidth = None\<rparr>)
         = Inr [''equation'', [], ''    if x > 0 then'', ''        y = 1;'', ''    else'',
                ''        y = -1;'', ''    end if;'']"
    by code_simp
  show ?thesis
    using g x2 x4 by (intro conjI)
qed

theorem else_line_at_indentation_of_if_header_witness:
  "isSectionStart (trim ''equation'') \<and> isIfWhen (trim ''  if x > 0 then'') \<and>
   isElse (trim ''  else'') \<and>
   (\<exists>out n. correctivePass 2
       [''equation'', [], ''  if x > 0 then'', ''    y = 1;'', ''  else'', ''    y = -1;'',
        ''  end if;''] = Inr out \<and>
      out ! 2 = replicate n CHR '' '' @ ''if x > 0 then'' \<and>
      out ! 4 = replicate n CHR '' '' @ ''else'')"
proof -
  have h0: "(2::nat) < 2 ^ 53" by simp
  have hl: "\<forall>x \<in> set ([] @ ''equation'' # [[]] @ ''  if x > 0 then'' # [''    y = 1;''] @
              ''  else'' # [''    y = -1;'', ''  end if;'']). length x < 2 ^ 53"
    by simp
  have h1: "isSectionStart (trim ''equation'')" by code_simp
  have h2: "\<forall>m \<in> set [[]]. \<not> isSectionStart (trim m) \<and> \<not> isSectionExit (trim m)"
    by code_simp
  have h3: "\<forall>m \<in> set [''    y = 1;'']. \<not> isSectionStart (trim m) \<and> \<not> isSectionExit (trim m)"
    by code_simp
  have h4: "isIfWhen (trim ''  if x > 0 then'')" by code_simp
  have h5: "isElse (trim ''  else'')" by code_simp
  have ti: "trim ''  if x > 0 then'' = ''if x > 0 then''" by code_simp
  have te: "trim ''  else'' = ''else''" by code_simp
  from else_line_at_indentation_of_if_header [OF h0 hl h1 h2 h3 h4 h5, THEN conjunct1]
  obtain out n where
    o: "correctivePass 2
          ([] @ ''equation'' # [[]] @ ''  if x > 0 then'' # [''    y = 1;''] @
              ''  else'' # [''    y = -1;'', ''  end if;'']) = Inr out"
    and a: "out ! (length ([]::string list) + 1 + length [[]::string]) =
              replicate n CHR '' '' @ trim ''  if x > 0 then''"
    and b: "out ! (length ([]::string list) + 2 + length [[]::string] + length [''    y = 1;'']) =
              replicate n CHR '' '' @ trim ''  else''"
    by (elim exE conjE)
  have i2: "length ([]::string list) + 1 + length [[]::string] = 2" by simp
  have i4: "length ([]::string list) + 2 + length [[]::string] + length [''    y = 1;''] = 4"
    by simp
  have o2: "out ! 2 = replicate n CHR '' '' @ ''if x > 0 then''"
    using a unfolding i2 ti .
  have o4: "out ! 4 = replicate n CHR '' '' @ ''else''"
    using b unfolding i4 te .
  have oc: "correctivePass 2
       [''equation'', [], ''  if x > 0 then'', ''    y = 1;'', ''  else'', ''    y = -1;'',
        ''  end if;''] = Inr out"
    using o by simp
  show ?thesis
  proof (intro conjI)
    show "isSectionStart (trim ''equation'')" by (rule h1)
    show "isIfWhen (trim ''  if x > 0 then'')" by (rule h4)
    show "isElse (trim ''  else'')" by (rule h5)
    show "\<exists>out n. correctivePass 2
       [''equation'', [], ''  if x > 0 then'', ''    y = 1;'', ''  else'', ''    y = -1;'',
        ''  end if;''] = Inr out \<and>
      out ! 2 = replicate n CHR '' '' @ ''if x > 0 then'' \<and>
      out ! 4 = replicate n CHR '' '' @ ''else''"
      using oc o2 o4 by (intro exI [of _ out] exI [of _ n] conjI)
  qed
qed

subsection \<open>Blank lines\<close>

text \<open>
  The rule \<open>/\n{3,}/g\<close> computes \<open>squeeze\<close>: the match at a position with three
  newlines extends over all the newlines that follow.
\<close>

lemma rxm_Star_char:
  "\<exists>rest. rxm (Star (Str [c])) (p, s) cs =
     ((if s \<noteq> [] \<and> hd s = c then Some c else p, dropWhile (\<lambda>x. x = c) s), cs) # rest"
proof (induction s arbitrary: p)
  case Nil
  then show ?case by (simp add: rxm.simps(5))
next
  case (Cons x t)
  show ?case
  proof (cases "x = c")
    case True
    from Cons.IH [of "Some c"] obtain rest where
      "rxm (Star (Str [c])) (Some c, t) cs =
         ((if t \<noteq> [] \<and> hd t = c then Some c else Some c, dropWhile (\<lambda>x. x = c) t), cs) # rest"
      by blast
    with True show ?thesis by (subst rxm.simps(5)) simp
  next
    case False
    then show ?thesis by (subst rxm.simps(5)) simp
  qed
qed

lemma rxm_atLeast3_match:
  "\<exists>rest. rxm (atLeast3 (Str ''\<newline>'')) (p, CHR ''\<newline>'' # CHR ''\<newline>'' # CHR ''\<newline>'' # t) [] =
     ((Some CHR ''\<newline>'', dropWhile (\<lambda>x. x = CHR ''\<newline>'') t), []) # rest"
  using rxm_Star_char [of "CHR ''\<newline>''" "Some CHR ''\<newline>''" t "[]"]
  by (auto simp add: atLeast3_def)

lemma rxm_atLeast3_none:
  assumes "take 3 s \<noteq> ''\<newline>\<newline>\<newline>''"
  shows "rxm (atLeast3 (Str ''\<newline>'')) (p, s) [] = []"
proof (cases s)
  case Nil
  then show ?thesis by (simp add: atLeast3_def)
next
  case s1: (Cons a t1)
  show ?thesis
  proof (cases t1)
    case Nil
    with s1 show ?thesis by (simp add: atLeast3_def)
  next
    case s2: (Cons b t2)
    show ?thesis
    proof (cases t2)
      case Nil
      with s1 s2 show ?thesis by (simp add: atLeast3_def)
    next
      case (Cons c t3)
      with s1 s2 assms show ?thesis by (auto simp add: atLeast3_def)
    qed
  qed
qed

lemma replaceFrom_collapse:
  "replaceFrom (atLeast3 (Str ''\<newline>'')) [Lit ''\<newline>\<newline>''] p s = squeeze s"
proof (induction s arbitrary: p rule: squeeze.induct)
  case 1
  show ?case
    by (simp add: replaceFrom.simps [of _ _ _ "[]"] rxm_atLeast3_none)
next
  case (2 c s)
  show ?case
  proof (cases "c = CHR ''\<newline>'' \<and> take 2 s = ''\<newline>\<newline>''")
    case True
    then obtain t where s: "s = CHR ''\<newline>'' # CHR ''\<newline>'' # t"
      by (cases s; cases "tl s") auto
    obtain rest where m: "rxm (atLeast3 (Str ''\<newline>'')) (p, c # s) [] =
        ((Some CHR ''\<newline>'', dropWhile (\<lambda>x. x = CHR ''\<newline>'') t), []) # rest"
      using rxm_atLeast3_match [of p t] True s by auto
    have d: "dropWhile (\<lambda>x. x = CHR ''\<newline>'') s = dropWhile (\<lambda>x. x = CHR ''\<newline>'') t"
      using s by simp
    have l: "length (dropWhile (\<lambda>x. x = CHR ''\<newline>'') t) < length (c # s)"
      using s length_dropWhile_le [of "\<lambda>x. x = CHR ''\<newline>''" t] by simp
    have "replaceFrom (atLeast3 (Str ''\<newline>'')) [Lit ''\<newline>\<newline>''] p (c # s) =
          ''\<newline>\<newline>'' @ replaceFrom (atLeast3 (Str ''\<newline>'')) [Lit ''\<newline>\<newline>''] (Some CHR ''\<newline>'')
             (dropWhile (\<lambda>x. x = CHR ''\<newline>'') t)"
      using m l by (subst replaceFrom.simps) simp
    also have "\<dots> = ''\<newline>\<newline>'' @ squeeze (dropWhile (\<lambda>x. x = CHR ''\<newline>'') s)"
      using "2.IH"(1) [OF True] d by simp
    finally show ?thesis using True by simp
  next
    case False
    then have n: "take 3 (c # s) \<noteq> ''\<newline>\<newline>\<newline>''" by auto
    have "replaceFrom (atLeast3 (Str ''\<newline>'')) [Lit ''\<newline>\<newline>''] p (c # s) =
          c # replaceFrom (atLeast3 (Str ''\<newline>'')) [Lit ''\<newline>\<newline>''] (Some c) s"
      using rxm_atLeast3_none [OF n] by (subst replaceFrom.simps) simp
    moreover have "squeeze (c # s) = c # squeeze s"
      using False by auto
    ultimately show ?thesis using "2.IH"(2) [OF False] by simp
  qed
qed

lemma dropWhile_append_last:
  assumes "a \<noteq> []" "\<not> P (last a)"
  shows "dropWhile P (a @ x) = dropWhile P a @ x \<and> dropWhile P a \<noteq> [] \<and>
         last (dropWhile P a) = last a"
  using assms
proof (induction a)
  case Nil
  then show ?case by simp
next
  case (Cons c a)
  then show ?case by (cases "a = []") auto
qed

lemma squeeze_run:
  assumes "3 \<le> n" "b = [] \<or> hd b \<noteq> CHR ''\<newline>''"
  shows "squeeze (replicate n CHR ''\<newline>'' @ b) = ''\<newline>\<newline>'' @ squeeze b"
proof -
  obtain k where n: "n = Suc (Suc (Suc k))"
    using assms(1) by (metis Suc_le_D numeral_3_eq_3 Suc_le_mono)
  have b: "dropWhile (\<lambda>x. x = CHR ''\<newline>'') b = b"
    using assms(2) by (cases b) auto
  have "dropWhile (\<lambda>x. x = CHR ''\<newline>'') (replicate m CHR ''\<newline>'' @ b) = b" for m
    using b by (induction m) auto
  from this [of "Suc (Suc k)"] show ?thesis
    using n by simp
qed

lemma squeeze_decompose:
  assumes "3 \<le> n" "a = [] \<or> last a \<noteq> CHR ''\<newline>''" "b = [] \<or> hd b \<noteq> CHR ''\<newline>''"
  shows "squeeze (a @ replicate n CHR ''\<newline>'' @ b) = squeeze a @ ''\<newline>\<newline>'' @ squeeze b"
  using assms(2)
proof (induction a rule: squeeze.induct)
  case 1
  show ?case using squeeze_run [OF assms(1) assms(3)] by simp
next
  case (2 c s)
  let ?x = "replicate n CHR ''\<newline>'' @ b"
  from "2.prems" have l: "last (c # s) \<noteq> CHR ''\<newline>''" by simp
  show ?case
  proof (cases "c = CHR ''\<newline>'' \<and> take 2 s = ''\<newline>\<newline>''")
    case True
    then have ne: "s \<noteq> []" by auto
    with l have ls: "last s \<noteq> CHR ''\<newline>''" by simp
    have d: "dropWhile (\<lambda>x. x = CHR ''\<newline>'') (s @ ?x) = dropWhile (\<lambda>x. x = CHR ''\<newline>'') s @ ?x \<and>
             dropWhile (\<lambda>x. x = CHR ''\<newline>'') s \<noteq> [] \<and>
             last (dropWhile (\<lambda>x. x = CHR ''\<newline>'') s) = last s"
      using dropWhile_append_last [of s "\<lambda>x. x = CHR ''\<newline>''" ?x] ne ls by simp
    have t: "take 2 (s @ ?x) = ''\<newline>\<newline>''"
      using True by (cases s; cases "tl s") auto
    have "squeeze ((c # s) @ ?x) =
          ''\<newline>\<newline>'' @ squeeze (dropWhile (\<lambda>x. x = CHR ''\<newline>'') s @ ?x)"
      using True t d by simp
    also have "\<dots> = ''\<newline>\<newline>'' @ squeeze (dropWhile (\<lambda>x. x = CHR ''\<newline>'') s) @ ''\<newline>\<newline>'' @ squeeze b"
      using "2.IH"(1) [OF True] d ls by simp
    finally show ?thesis using True by simp
  next
    case False
    have f: "\<not> (c = CHR ''\<newline>'' \<and> take 2 (s @ ?x) = ''\<newline>\<newline>'')"
    proof (cases s)
      case Nil
      with l show ?thesis by simp
    next
      case s1: (Cons d t1)
      show ?thesis
      proof (cases t1)
        case Nil
        with s1 l show ?thesis by simp
      next
        case (Cons e t2)
        with s1 False show ?thesis by simp
      qed
    qed
    have p: "s = [] \<or> last s \<noteq> CHR ''\<newline>''" using l by (cases "s = []") auto
    have "squeeze (c # (s @ ?x)) = c # squeeze (s @ ?x)"
      by (subst squeeze.simps) (simp only: f if_False)
    then have "squeeze ((c # s) @ ?x) = c # squeeze (s @ ?x)"
      by simp
    moreover have "squeeze (c # s) = c # squeeze s"
      using False by auto
    ultimately show ?thesis
      using "2.IH"(2) [OF False p] by simp
  qed
qed

lemma collapse_rule:
  assumes "3 \<le> n" "a = [] \<or> last a \<noteq> CHR ''\<newline>''" "b = [] \<or> hd b \<noteq> CHR ''\<newline>''"
  shows "applyRules [collapseBlankLines] (a @ replicate n CHR ''\<newline>'' @ b) =
         applyRules [collapseBlankLines] a @ ''\<newline>\<newline>'' @ applyRules [collapseBlankLines] b"
  using squeeze_decompose [OF assms]
  by (simp add: applyRules_def collapseBlankLines_def replaceAll_def replaceFrom_collapse)

text \<open>
  The rule counts newline characters, not lines. Four blank lines at the start of the text
  are four newlines, replaced by two: two blank lines remain, in the rule's output and in
  the output of the pipeline. After a section header, the rule for a blank line after the
  header runs later and adds a newline: four blank lines after \<open>equation\<close> come out as two.
\<close>

theorem leading_blank_lines_not_collapsed_to_one:
  "split CHR ''\<newline>'' ''\<newline>\<newline>\<newline>\<newline>x'' = [[], [], [], [], ''x''] \<and>
   applyRules [collapseBlankLines] ''\<newline>\<newline>\<newline>\<newline>x'' = ''\<newline>\<newline>x'' \<and>
   formatModelica ''\<newline>\<newline>\<newline>\<newline>x'' defaults = Inr ''\<newline>\<newline>x'' \<and>
   split CHR ''\<newline>'' ''\<newline>\<newline>x'' = [[], [], ''x''] \<and>
   formatModelica ''equation\<newline>\<newline>\<newline>\<newline>\<newline>x'' defaults = Inr ''equation\<newline>\<newline>\<newline>  x''"
  by code_simp

text \<open>
  C8, as the code has it. A run of three or more newline characters, not preceded and not
  followed by a further newline, is replaced by exactly two newlines, and the text before
  it and the text after it are rewritten as they are on their own: two or more blank lines
  between two lines of text become exactly one blank line in the rule's output. The input
  of the lines \<open>a\<close>, four blank lines and \<open>b\<close> comes out of the pipeline as \<open>a\<close>, one
  blank line and \<open>b\<close>.
\<close>

theorem newline_run_collapses_to_two:
  "(3 \<le> n \<and> (a = [] \<or> last a \<noteq> CHR ''\<newline>'') \<and> (b = [] \<or> hd b \<noteq> CHR ''\<newline>'') \<longrightarrow>
      applyRules [collapseBlankLines] (a @ replicate n CHR ''\<newline>'' @ b) =
      applyRules [collapseBlankLines] a @ ''\<newline>\<newline>'' @ applyRules [collapseBlankLines] b) \<and>
   formatModelica ''a\<newline>\<newline>\<newline>\<newline>\<newline>b'' defaults = Inr ''a\<newline>\<newline>b''"
proof -
  have "formatModelica ''a\<newline>\<newline>\<newline>\<newline>\<newline>b'' defaults = Inr ''a\<newline>\<newline>b''"
    by code_simp
  then show ?thesis
    using collapse_rule [of n a b] by simp
qed

theorem newline_run_collapses_to_two_witness:
  "(3::nat) \<le> 5 \<and> last ''a'' \<noteq> CHR ''\<newline>'' \<and> hd ''b'' \<noteq> CHR ''\<newline>'' \<and>
   applyRules [collapseBlankLines] ''a\<newline>\<newline>\<newline>\<newline>\<newline>b'' = ''a\<newline>\<newline>b''"
proof -
  have h: "(3::nat) \<le> 5 \<and> (''a'' = [] \<or> last ''a'' \<noteq> CHR ''\<newline>'') \<and>
           (''b'' = [] \<or> hd ''b'' \<noteq> CHR ''\<newline>'')"
    by simp
  have a: "applyRules [collapseBlankLines] ''a'' = ''a''" by code_simp
  have b: "applyRules [collapseBlankLines] ''b'' = ''b''" by code_simp
  have r: "''a'' @ replicate 5 CHR ''\<newline>'' @ ''b'' = ''a\<newline>\<newline>\<newline>\<newline>\<newline>b''"
    by (simp add: eval_nat_numeral)
  have "applyRules [collapseBlankLines] (''a'' @ replicate 5 CHR ''\<newline>'' @ ''b'') =
        applyRules [collapseBlankLines] ''a'' @ ''\<newline>\<newline>'' @ applyRules [collapseBlankLines] ''b''"
    using newline_run_collapses_to_two [of 5 "''a''" "''b''", THEN conjunct1] h by (rule mp)
  then have "applyRules [collapseBlankLines] ''a\<newline>\<newline>\<newline>\<newline>\<newline>b'' = ''a\<newline>\<newline>b''"
    unfolding r a b by simp
  then show ?thesis by simp
qed

subsection \<open>The width option\<close>

text \<open>
  C9. The output does not depend on \<open>printWidth\<close>: two option values that differ in
  \<open>printWidth\<close> only give the same result, for every text.
\<close>

theorem formatModelica_ignores_printWidth:
  "formatModelica t (opts\<lparr>printWidth := w1\<rparr>) = formatModelica t (opts\<lparr>printWidth := w2\<rparr>)"
  by (simp add: formatModelica_def)

subsection \<open>Operators of more than one character\<close>

text \<open>
  C10. The operator rule puts spaces around each of \<open>+ * / = < >\<close> on its own, so an
  operator of two characters is split: \<open>x >= y\<close> becomes \<open>x >  = y\<close> and \<open>x := 1;\<close>
  becomes \<open>x : = 1;\<close>, in the rule's output and in the output of the pipeline.
\<close>

theorem compound_operators_split:
  "applyRules [operatorSpacing] ''x >= y'' = ''x >  = y'' \<and>
   formatModelica ''x >= y'' defaults = Inr ''x >  = y'' \<and>
   applyRules [operatorSpacing] ''x := 1;'' = ''x : = 1;'' \<and>
   formatModelica ''x := 1;'' defaults = Inr ''x : = 1;'' \<and>
   formatModelica ''algorithm\<newline>x := 1;'' defaults = Inr ''algorithm\<newline>\<newline>  x : = 1;'' \<and>
   formatModelica ''x <= y'' defaults = Inr ''x <  = y''"
  by code_simp

end
